theory Spec2Isabelle
  imports Complex_Main
begin

section \<open>JavaScript values used by the dashboard\<close>

text \<open>
  The components of \<^verbatim>\<open>Dashboard.jsx\<close> receive plain JavaScript values as props.
  Numbers are modelled as real numbers (rounding to IEEE doubles and NaN are not
  modelled); the arrays that occur are arrays of numbers. An object is a finite map from
  property names to values; reading a property the object does not have gives
  \<^verbatim>\<open>undefined\<close>. The prop \<^verbatim>\<open>predictions\<close> is either \<^verbatim>\<open>null\<close> (\<open>None\<close>) or an object.
\<close>

datatype js_value =
    JUndefined
  | JNull
  | JBool bool
  | JNum real
  | JStr string
  | JArr "real list"

type_synonym js_object = "string \<rightharpoonup> js_value"

text \<open>JavaScript's ToBoolean: every array, also the empty one, is truthy.\<close>

fun truthy :: "js_value \<Rightarrow> bool" where
  "truthy JUndefined = False"
| "truthy JNull = False"
| "truthy (JBool b) = b"
| "truthy (JNum v) = (v \<noteq> 0)"
| "truthy (JStr s) = (s \<noteq> [])"
| "truthy (JArr vs) = True"

text \<open>\<^verbatim>\<open>a || b\<close>: the left operand when it is truthy, the right one otherwise.\<close>

definition js_or :: "js_value \<Rightarrow> js_value \<Rightarrow> js_value" where
  "js_or a b = (if truthy a then a else b)"

text \<open>\<^verbatim>\<open>obj?.key\<close>: \<^verbatim>\<open>undefined\<close> when \<^verbatim>\<open>obj\<close> is null, the property otherwise.\<close>

definition opt_chain :: "js_object option \<Rightarrow> string \<Rightarrow> js_value" where
  "opt_chain obj key =
     (case obj of
        None \<Rightarrow> JUndefined
      | Some props \<Rightarrow> (case props key of None \<Rightarrow> JUndefined | Some v \<Rightarrow> v))"

text \<open>The decimal digits of a natural number, as a template literal prints it.\<close>

definition digit_char :: "nat \<Rightarrow> char" where
  "digit_char d = ''0123456789'' ! d"

fun string_of_nat :: "nat \<Rightarrow> string" where
  "string_of_nat n =
     (if n < 10 then [digit_char n]
      else string_of_nat (n div 10) @ [digit_char (n mod 10)])"

declare string_of_nat.simps [simp del]

section \<open>\<^verbatim>\<open>YieldPredictionCard\<close>\<close>

text \<open>
  The \<^verbatim>\<open>data\<close> object handed to a chart: its labels, and the label and the data of its
  one dataset. Colours and line tension are presentation only and are left out.
\<close>

record chart_data =
  labels :: "string list"
  dataset_label :: string
  dataset_data :: js_value

definition lineData :: "js_object option \<Rightarrow> chart_data" where
  "lineData preds =
     \<lparr> labels = map (\<lambda>i. ''Day '' @ string_of_nat (i + 1)) [0..<7],
       dataset_label = ''Predicted Yield (t/ha)'',
       dataset_data =
         js_or (opt_chain preds ''trend'')
           (JArr [3.2, 3.3, 3.35, 3.4, 3.42, 3.45, 3.5]) \<rparr>"

definition barData :: "js_object option \<Rightarrow> chart_data" where
  "barData preds =
     \<lparr> labels = [''Rice'', ''Wheat'', ''Maize'', ''Sugarcane''],
       dataset_label = ''Confidence'',
       dataset_data =
         js_or (opt_chain preds ''confidence'') (JArr [0.82, 0.76, 0.71, 0.79]) \<rparr>"

definition radarData :: "js_object option \<Rightarrow> chart_data" where
  "radarData preds =
     \<lparr> labels = [''Rainfall'', ''Temperature'', ''Soil Moisture'', ''N'', ''P'', ''K''],
       dataset_label = ''Risk Factors'',
       dataset_data =
         js_or (opt_chain preds ''risks'') (JArr [60, 40, 70, 35, 45, 50]) \<rparr>"

text \<open>What the card renders: a line chart, a bar chart and a radar chart.\<close>

record card =
  line_chart :: chart_data
  bar_chart :: chart_data
  radar_chart :: chart_data

definition YieldPredictionCard :: "js_object option \<Rightarrow> card" where
  "YieldPredictionCard preds =
     \<lparr> line_chart = lineData preds,
       bar_chart = barData preds,
       radar_chart = radarData preds \<rparr>"

section \<open>\<^verbatim>\<open>LanguageSelector\<close>\<close>

text \<open>
  The \<^verbatim>\<open>select\<close> element has three \<^verbatim>\<open>option\<close> children. A change event is raised
  when the user picks one of them, and \<^verbatim>\<open>e.target.value\<close> is then the \<^verbatim>\<open>value\<close>
  attribute of the option picked.
\<close>

datatype lang_option = English | Hindi | Odia

fun option_value :: "lang_option \<Rightarrow> string" where
  "option_value English = ''en''"
| "option_value Hindi = ''hi''"
| "option_value Odia = ''or''"

text \<open>What the component renders: the controlled value and the values on offer.\<close>

record select_view =
  select_value :: string
  option_values :: "string list"

definition LanguageSelector :: "string \<Rightarrow> select_view" where
  "LanguageSelector currentLang =
     \<lparr> select_value = currentLang,
       option_values = [option_value English, option_value Hindi, option_value Odia] \<rparr>"

text \<open>The handler \<^verbatim>\<open>(e) => onLanguageChange(e.target.value)\<close>.\<close>

definition LanguageSelector_onChange :: "(string \<Rightarrow> 'a) \<Rightarrow> lang_option \<Rightarrow> 'a" where
  "LanguageSelector_onChange onLanguageChange picked = onLanguageChange (option_value picked)"

section \<open>\<^verbatim>\<open>Dashboard\<close>\<close>

text \<open>
  The component owns two pieces of state. Its effect has an empty dependency list: it
  runs once after mounting and starts a timer of 400 ms whose callback assigns the
  placeholder record; the clean-up of the effect, run at unmounting, clears the timer.
  The field \<open>timer\<close> is the time in milliseconds left on the pending timer, \<open>None\<close> when
  no timer is pending.
\<close>

record dashboard =
  predictions :: "js_object option"
  selectedLanguage :: string
  timer :: "nat option"
  mounted :: bool

text \<open>The calls of the two state setters, recorded in the order they happen.\<close>

datatype effect = SetPredictions js_object | SetSelectedLanguage string

definition placeholder :: js_object where
  "placeholder =
     [''trend'' \<mapsto> JArr [3.2, 3.31, 3.35, 3.41, 3.46, 3.5, 3.58],
      ''confidence'' \<mapsto> JArr [0.84, 0.76, 0.72, 0.8],
      ''risks'' \<mapsto> JArr [55, 42, 68, 35, 45, 51]]"

definition mount :: dashboard where
  "mount = \<lparr> predictions = None, selectedLanguage = ''en'', timer = Some 400, mounted = True \<rparr>"

text \<open>
  What can happen to a mounted dashboard: time passes, the user picks a language, or
  the component is unmounted. A timer whose delay has passed fires; after unmounting
  there is neither a timer nor an element left to raise change events.
\<close>

datatype event = Elapse nat | Change lang_option | Unmount

fun step :: "dashboard \<Rightarrow> event \<Rightarrow> dashboard \<times> effect list" where
  "step s (Elapse d) =
     (case timer s of
        None \<Rightarrow> (s, [])
      | Some left \<Rightarrow>
          if left \<le> d
          then (s\<lparr>predictions := Some placeholder, timer := None\<rparr>, [SetPredictions placeholder])
          else (s\<lparr>timer := Some (left - d)\<rparr>, []))"
| "step s (Change picked) =
     (if mounted s
      then LanguageSelector_onChange
             (\<lambda>code. (s\<lparr>selectedLanguage := code\<rparr>, [SetSelectedLanguage code])) picked
      else (s, []))"
| "step s Unmount = (s\<lparr>mounted := False, timer := None\<rparr>, [])"

fun run :: "dashboard \<Rightarrow> event list \<Rightarrow> dashboard \<times> effect list" where
  "run s [] = (s, [])"
| "run s (e # es) =
     (case step s e of (s1, fx1) \<Rightarrow> (case run s1 es of (s2, fx2) \<Rightarrow> (s2, fx1 @ fx2)))"

text \<open>What the dashboard renders from its state: the selector and the chart card.\<close>

definition Dashboard_view :: "dashboard \<Rightarrow> select_view \<times> card" where
  "Dashboard_view s = (LanguageSelector (selectedLanguage s), YieldPredictionCard (predictions s))"

text \<open>The number of placeholder assignments among recorded setter calls.\<close>

fun assignments :: "effect list \<Rightarrow> nat" where
  "assignments [] = 0"
| "assignments (SetPredictions p # fx) = Suc (assignments fx)"
| "assignments (SetSelectedLanguage c # fx) = assignments fx"

text \<open>The time that passes during a list of events.\<close>

fun elapsed :: "event list \<Rightarrow> nat" where
  "elapsed [] = 0"
| "elapsed (Elapse d # es) = d + elapsed es"
| "elapsed (e # es) = elapsed es"

section \<open>JavaScript numbers in the 3D scene\<close>

text \<open>
  The scene computes with JavaScript numbers: IEEE 754 double-precision values. A finite
  number is modelled by the real number it denotes, and every arithmetic operation
  rounds the exact result to the nearest double, a tie going to the double with the even
  significand. Doubles have a significand of 53 bits; the spacing of the doubles around
  \<open>x\<close> is \<open>2 powi expo x\<close>, which stops shrinking at \<open>2 powi - 1074\<close>, the spacing of the
  subnormal numbers. The two zeros are not told apart.
\<close>

definition expo :: "real \<Rightarrow> int" where
  "expo x = (if x = 0 then - 1074 else max (\<lfloor>log 2 \<bar>x\<bar>\<rfloor> - 52) (- 1074))"

text \<open>Rounding to the nearest integer, a tie going to the even one.\<close>

definition rne :: "real \<Rightarrow> int" where
  "rne y =
     (let f = \<lfloor>y\<rfloor>; d = y - of_int f
      in if d < 1 / 2 then f
         else if 1 / 2 < d then f + 1
         else if even f then f else f + 1)"

text \<open>
  A decimal literal of the program, such as \<^verbatim>\<open>0.3\<close>, denotes \<open>round_double 0.3\<close>.
\<close>

definition round_double :: "real \<Rightarrow> real" where
  "round_double x = of_int (rne (x / 2 powi expo x)) * 2 powi expo x"

text \<open>
  A number is \<^verbatim>\<open>NaN\<close>, one of the two infinities, or finite. A finite number is well
  formed when it is a double: rounding leaves it alone and it is below the overflow
  threshold.
\<close>

datatype js_number = NaN | PosInf | NegInf | Fin real

definition is_double :: "real \<Rightarrow> bool" where
  "is_double x \<longleftrightarrow> round_double x = x \<and> \<bar>x\<bar> < 2 powi 1024"

fun is_number :: "js_number \<Rightarrow> bool" where
  "is_number (Fin x) = is_double x"
| "is_number v = True"

text \<open>The result of an operation whose exact value is \<open>x\<close>: rounding, then overflow.\<close>

definition to_number :: "real \<Rightarrow> js_number" where
  "to_number x =
     (let r = round_double x
      in if 2 powi 1024 \<le> r then PosInf
         else if r \<le> - (2 powi 1024) then NegInf
         else Fin r)"

text \<open>
  The operators \<^verbatim>\<open>-\<close> (unary), \<^verbatim>\<open>+\<close>, \<^verbatim>\<open>-\<close>, \<^verbatim>\<open>*\<close> and \<^verbatim>\<open>/\<close> on numbers. \<^verbatim>\<open>NaN\<close>
  spreads; the infinities follow the rules of IEEE arithmetic.
\<close>

fun js_neg :: "js_number \<Rightarrow> js_number" where
  "js_neg NaN = NaN"
| "js_neg PosInf = NegInf"
| "js_neg NegInf = PosInf"
| "js_neg (Fin x) = Fin (- x)"

fun js_add :: "js_number \<Rightarrow> js_number \<Rightarrow> js_number" where
  "js_add NaN b = NaN"
| "js_add a NaN = NaN"
| "js_add (Fin x) (Fin y) = to_number (x + y)"
| "js_add (Fin x) b = b"
| "js_add a (Fin y) = a"
| "js_add a b = (if a = b then a else NaN)"

definition js_sub :: "js_number \<Rightarrow> js_number \<Rightarrow> js_number" where
  "js_sub a b = js_add a (js_neg b)"

fun js_mul :: "js_number \<Rightarrow> js_number \<Rightarrow> js_number" where
  "js_mul NaN b = NaN"
| "js_mul a NaN = NaN"
| "js_mul (Fin x) (Fin y) = to_number (x * y)"
| "js_mul (Fin x) b = (if x = 0 then NaN else if 0 < x then b else js_neg b)"
| "js_mul a (Fin y) = (if y = 0 then NaN else if 0 < y then a else js_neg a)"
| "js_mul a b = (if a = b then PosInf else NegInf)"

fun js_div :: "js_number \<Rightarrow> js_number \<Rightarrow> js_number" where
  "js_div NaN b = NaN"
| "js_div a NaN = NaN"
| "js_div (Fin x) (Fin y) =
     (if y = 0 then (if x = 0 then NaN else if 0 < x then PosInf else NegInf)
      else to_number (x / y))"
| "js_div (Fin x) b = Fin 0"
| "js_div a (Fin y) = (if 0 \<le> y then a else js_neg a)"
| "js_div a b = NaN"

text \<open>\<^verbatim>\<open>Math.max\<close> and \<^verbatim>\<open>Math.min\<close> of two numbers: \<^verbatim>\<open>NaN\<close> when either is.\<close>

fun Math_max :: "js_number \<Rightarrow> js_number \<Rightarrow> js_number" where
  "Math_max NaN b = NaN"
| "Math_max a NaN = NaN"
| "Math_max PosInf b = PosInf"
| "Math_max a PosInf = PosInf"
| "Math_max NegInf b = b"
| "Math_max a NegInf = a"
| "Math_max (Fin x) (Fin y) = Fin (max x y)"

fun Math_min :: "js_number \<Rightarrow> js_number \<Rightarrow> js_number" where
  "Math_min NaN b = NaN"
| "Math_min a NaN = NaN"
| "Math_min NegInf b = NegInf"
| "Math_min a NegInf = NegInf"
| "Math_min PosInf b = b"
| "Math_min a PosInf = a"
| "Math_min (Fin x) (Fin y) = Fin (min x y)"

text \<open>\<^verbatim>\<open>Math.PI\<close>, the double nearest to the circle constant.\<close>

definition Math_PI :: real where
  "Math_PI = 884279719003555 / 2 ^ 48"

section \<open>The crop field of the 3D scene\<close>

text \<open>
  The scene component reads three things of the global \<^verbatim>\<open>Math\<close> object. The property
  \<^verbatim>\<open>Math.seedrandom\<close> exists only when the seedrandom library has been loaded; called
  with a seed it returns a generator. It is \<open>None\<close> when the property is undefined. A
  generator, and \<^verbatim>\<open>Math.random\<close> too, is modelled by the sequence of finite numbers
  that its successive calls return. The result of \<^verbatim>\<open>Math.sin\<close> is an approximation
  that the language leaves to the implementation, so the function is a component of the
  environment.
\<close>

datatype js_error = TypeError

record math_env =
  seedrandom :: "(string \<Rightarrow> nat \<Rightarrow> real) option"
  random :: "nat \<Rightarrow> real"
  math_sin :: "js_number \<Rightarrow> js_number"

text \<open>One entry of \<^verbatim>\<open>seeds\<close>: the object \<^verbatim>\<open>{x, z, h, r}\<close>.\<close>

record seed =
  seed_x :: js_number
  seed_z :: js_number
  seed_h :: js_number
  seed_r :: js_number

text \<open>
  \<^verbatim>\<open>rng ? rng() : Math.random()\<close>, for the call number \<open>k\<close> of the loop. Only one of the
  two sources is drawn from during a loop, so one call counter is enough.
\<close>

definition next_number :: "(nat \<Rightarrow> real) option \<Rightarrow> (nat \<Rightarrow> real) \<Rightarrow> nat \<Rightarrow> js_number" where
  "next_number rng rnd k = (case rng of Some g \<Rightarrow> Fin (g k) | None \<Rightarrow> Fin (rnd k))"

text \<open>
  The \<^verbatim>\<open>for\<close> loop with \<open>n\<close> iterations left: four numbers are drawn in the order
  \<^verbatim>\<open>rx\<close>, \<^verbatim>\<open>rz\<close>, \<^verbatim>\<open>rh\<close> and the one for \<^verbatim>\<open>r\<close>, and one entry is pushed. The
  products and sums are those of the source, each rounded.
\<close>

fun seeds_loop ::
  "(nat \<Rightarrow> real) option \<Rightarrow> (nat \<Rightarrow> real) \<Rightarrow> nat \<Rightarrow> nat \<Rightarrow> seed list \<Rightarrow> seed list" where
  "seeds_loop rng rnd 0 k vals = vals"
| "seeds_loop rng rnd (Suc n) k vals =
     (let rx = next_number rng rnd k;
          rz = next_number rng rnd (k + 1);
          rh = next_number rng rnd (k + 2);
          rr = next_number rng rnd (k + 3)
      in seeds_loop rng rnd n (k + 4)
           (vals @ [\<lparr> seed_x = js_sub (js_mul rx (Fin 8)) (Fin 4),
                      seed_z = js_sub (js_mul rz (Fin 8)) (Fin 4),
                      seed_h = js_add (Fin (round_double 0.6)) (js_mul rh (Fin (round_double 1.8))),
                      seed_r = js_mul (js_mul rr (Fin Math_PI)) (Fin 2) \<rparr>]))"

text \<open>
  The body of the \<^verbatim>\<open>useMemo\<close> callback. Its first line is
  \<^verbatim>\<open>const rng = new Math.seedrandom ? new Math.seedrandom('krishi') : null\<close>.
  The operator \<^verbatim>\<open>new\<close> binds tighter than the conditional, so the condition is the
  expression \<^verbatim>\<open>new Math.seedrandom\<close>: it constructs an object when the property is a
  constructor and raises a TypeError when the property is undefined. A constructed
  object is truthy, so \<^verbatim>\<open>rng\<close> is then the generator seeded with \<^verbatim>\<open>'krishi'\<close>; the
  branch \<^verbatim>\<open>null\<close> is never taken.
\<close>

definition seeds :: "math_env \<Rightarrow> nat \<Rightarrow> js_error + seed list" where
  "seeds env count =
     (case seedrandom env of
        None \<Rightarrow> Inl TypeError
      | Some ctor \<Rightarrow> Inr (seeds_loop (Some (ctor ''krishi'')) (random env) count 0 []))"

text \<open>
  Modelled from the spec: \<^verbatim>\<open>THREE.MathUtils.clamp\<close> and \<^verbatim>\<open>THREE.MathUtils.lerp\<close>
  belong to the three.js library, which is not part of the sources. The specification
  calls them clamping to an interval and linear interpolation; the definitions are the
  library's: \<^verbatim>\<open>Math.max(min, Math.min(max, value))\<close> and \<^verbatim>\<open>(1 - t) * x + t * y\<close>.
\<close>

definition clamp :: "js_number \<Rightarrow> js_number \<Rightarrow> js_number \<Rightarrow> js_number" where
  "clamp v lo hi = Math_max lo (Math_min hi v)"

definition lerp :: "js_number \<Rightarrow> js_number \<Rightarrow> js_number \<Rightarrow> js_number" where
  "lerp a b t = js_add (js_mul (js_sub (Fin 1) t) a) (js_mul t b)"

text \<open>
  The matrix of an instance is composed by \<^verbatim>\<open>updateMatrix\<close> from the position, the
  rotation and the scale of the dummy object. The model keeps these three vectors
  instead of the sixteen entries.
\<close>

record matrix4 =
  position :: "js_number \<times> js_number \<times> js_number"
  rotation :: "js_number \<times> js_number \<times> js_number"
  scale :: "js_number \<times> js_number \<times> js_number"

record instanced_mesh =
  mesh_count :: nat
  instanceMatrix :: "matrix4 list"

text \<open>
  \<^verbatim>\<open>new InstancedMesh(null, null, count)\<close>, which the element
  \<^verbatim>\<open>instancedMesh args={[null, null, count]}\<close> constructs: the matrices start zeroed.
\<close>

definition InstancedMesh :: "nat \<Rightarrow> instanced_mesh" where
  "InstancedMesh count =
     \<lparr> mesh_count = count,
       instanceMatrix =
         replicate count
           \<lparr> position = (Fin 0, Fin 0, Fin 0), rotation = (Fin 0, Fin 0, Fin 0),
             scale = (Fin 0, Fin 0, Fin 0) \<rparr> \<rparr>"

text \<open>A write past the end of the typed array behind the matrices is dropped.\<close>

definition setMatrixAt :: "nat \<Rightarrow> matrix4 \<Rightarrow> instanced_mesh \<Rightarrow> instanced_mesh" where
  "setMatrixAt i m mesh =
     (if i < length (instanceMatrix mesh)
      then mesh\<lparr>instanceMatrix := (instanceMatrix mesh)[i := m]\<rparr>
      else mesh)"

text \<open>The body of the \<^verbatim>\<open>forEach\<close> callback, up to \<^verbatim>\<open>dummy.updateMatrix()\<close>.\<close>

definition instance_matrix :: "math_env \<Rightarrow> js_number \<Rightarrow> js_number \<Rightarrow> seed \<Rightarrow> matrix4" where
  "instance_matrix env t growth s =
     (let sway =
            js_mul (math_sin env (js_add (js_mul t (Fin (round_double 1.2))) (seed_r s)))
              (Fin (round_double 0.04));
          height = lerp (Fin (round_double 0.3)) (seed_h s) growth
      in \<lparr> position = (seed_x s, js_div height (Fin 2), seed_z s),
           rotation = (Fin 0, js_add (seed_r s) sway, Fin 0),
           scale = (Fin (round_double 0.06), height, Fin (round_double 0.06)) \<rparr>)"

fun forEach_seed ::
  "math_env \<Rightarrow> js_number \<Rightarrow> js_number \<Rightarrow> seed list \<Rightarrow> nat \<Rightarrow> instanced_mesh
     \<Rightarrow> instanced_mesh" where
  "forEach_seed env t growth [] i mesh = mesh"
| "forEach_seed env t growth (s # ss) i mesh =
     forEach_seed env t growth ss (Suc i) (setMatrixAt i (instance_matrix env t growth s) mesh)"

text \<open>The per-frame callback of \<^verbatim>\<open>InstancedCrops\<close> at the elapsed time \<open>t\<close>.\<close>

definition InstancedCrops_frame ::
  "math_env \<Rightarrow> js_number \<Rightarrow> js_number \<Rightarrow> seed list \<Rightarrow> instanced_mesh \<Rightarrow> instanced_mesh" where
  "InstancedCrops_frame env t predictionScore sds mesh =
     (let growth = clamp predictionScore (Fin 0) (Fin 1)
      in forEach_seed env t growth sds 0 mesh)"

text \<open>
  Rendering the component: the memoised seeds are computed, which may raise, and the
  instanced mesh is created with \<^verbatim>\<open>count\<close> instances.
\<close>

definition InstancedCrops :: "math_env \<Rightarrow> nat \<Rightarrow> js_error + seed list \<times> instanced_mesh" where
  "InstancedCrops env count =
     (case seeds env count of
        Inl err \<Rightarrow> Inl err
      | Inr sds \<Rightarrow> Inr (sds, InstancedMesh count))"

text \<open>The height of an instance is the second component of its scale.\<close>

definition instance_height :: "matrix4 \<Rightarrow> js_number" where
  "instance_height m = fst (snd (scale m))"

subsection \<open>\<^verbatim>\<open>FarmField\<close>\<close>

text \<open>
  The group holds the ground plane, made by \<^verbatim>\<open>planeGeometry args={[18, 18, 64, 64]}\<close>
  and turned into the horizontal plane around the origin, and the crops. The per-frame
  callback returns at once while the reference to the group is empty. The rotation of
  the group is taken over the real numbers.
\<close>

record group =
  group_rotation :: "real \<times> real \<times> real"

definition FarmField_frame :: "real \<Rightarrow> group option \<Rightarrow> group option" where
  "FarmField_frame elapsedTime fieldRef =
     (case fieldRef of
        None \<Rightarrow> None
      | Some g \<Rightarrow>
          Some (g\<lparr>group_rotation :=
                    (fst (group_rotation g), sin (elapsedTime * 0.3) * 0.06,
                     snd (snd (group_rotation g)))\<rparr>))"

definition rotation_y :: "group \<Rightarrow> real" where
  "rotation_y g = fst (snd (group_rotation g))"

definition plane_width :: real where
  "plane_width = 18"

definition plane_height :: real where
  "plane_height = 18"

text \<open>An instance stands on the plane when its position is finite and within it.\<close>

definition on_ground_plane :: "matrix4 \<Rightarrow> bool" where
  "on_ground_plane m =
     (case position m of
        (Fin px, py, Fin pz) \<Rightarrow> \<bar>px\<bar> \<le> plane_width / 2 \<and> \<bar>pz\<bar> \<le> plane_height / 2
      | other \<Rightarrow> False)"

section \<open>The setup scripts\<close>

text \<open>
  Both scripts run external commands one after the other. What the scripts can
  observe of a command is whether the shell could start it at all and, if so, the exit
  code it ended with. The machine the script runs on is modelled by the outcome of the
  command at each line of the script.
\<close>

datatype outcome = NotFound | Exited int

type_synonym host = "nat \<Rightarrow> outcome"

subsection \<open>\<^verbatim>\<open>setup.bat\<close>\<close>

text \<open>
  The statements that occur in the batch file. \<open>Run\<close> and \<open>Cd\<close> carry the line of the
  script they stand on and the text of the command.
\<close>

datatype bat_stmt =
    Echo string
  | Cd nat string
  | Run nat string
  | Pause
  | ExitB int
  | IfErrorlevelNeq0 "bat_stmt list"

record bat_state =
  errorlevel :: int
  bat_started :: "nat list"
  bat_printed :: "string list"
  bat_exit :: "int option"

text \<open>
  The error level after an external command: its exit code, or 9009 when the command
  interpreter could not find the program.
\<close>

fun errorlevel_of :: "outcome \<Rightarrow> int" where
  "errorlevel_of NotFound = 9009"
| "errorlevel_of (Exited n) = n"

text \<open>
  Running statements in sequence. A changed directory leaves the error level as it was
  and a failed \<^verbatim>\<open>cd\<close> sets it to 1; \<^verbatim>\<open>echo\<close> and \<^verbatim>\<open>pause\<close> do not touch it;
  \<^verbatim>\<open>exit /b n\<close> ends the script with code \<open>n\<close>.
\<close>

fun exec_bat :: "host \<Rightarrow> bat_stmt list \<Rightarrow> bat_state \<Rightarrow> bat_state" where
  "exec_bat host [] s = s"
| "exec_bat host (Echo msg # rest) s =
     exec_bat host rest (s\<lparr>bat_printed := bat_printed s @ [msg]\<rparr>)"
| "exec_bat host (Cd l dir # rest) s =
     exec_bat host rest
       (s\<lparr>errorlevel := (if host l = Exited 0 then errorlevel s else 1),
          bat_started := bat_started s @ [l]\<rparr>)"
| "exec_bat host (Run l cmd # rest) s =
     exec_bat host rest
       (s\<lparr>errorlevel := errorlevel_of (host l), bat_started := bat_started s @ [l]\<rparr>)"
| "exec_bat host (Pause # rest) s = exec_bat host rest s"
| "exec_bat host (ExitB n # rest) s = s\<lparr>bat_exit := Some n\<rparr>"
| "exec_bat host (IfErrorlevelNeq0 body # rest) s =
     (if errorlevel s \<noteq> 0
      then (let s' = exec_bat host body s
            in if bat_exit s' = None then exec_bat host rest s' else s')
      else exec_bat host rest s)"

subsection \<open>\<^verbatim>\<open>setup.ps1\<close>\<close>

text \<open>
  The statements of the PowerShell script: a native command (\<^verbatim>\<open>python\<close>, \<^verbatim>\<open>node\<close>,
  \<^verbatim>\<open>npm\<close>, \<^verbatim>\<open>pip\<close>), the cmdlet \<^verbatim>\<open>Set-Location\<close>, the call operator on a
  script file, \<^verbatim>\<open>try\<close> with its \<^verbatim>\<open>catch\<close> block, and the test
  \<^verbatim>\<open>if ($LASTEXITCODE -ne 0)\<close>.
\<close>

datatype ps_stmt =
    WriteHost string
  | ReadHost string
  | Exit int
  | Native nat string
  | SetLocation nat string
  | Invoke nat string
  | Try "ps_stmt list" "ps_stmt list"
  | IfLastExitCodeNe0 "ps_stmt list"

record ps_state =
  lastexitcode :: "int option"
  ps_started :: "nat list"
  ps_printed :: "string list"
  ps_exit :: "int option"
  ps_thrown :: bool

text \<open>A block stops when the script has exited or an exception is on its way up.\<close>

definition ps_stopped :: "ps_state \<Rightarrow> bool" where
  "ps_stopped s = (ps_exit s \<noteq> None \<or> ps_thrown s)"

text \<open>
  Running statements in sequence; \<open>in_try\<close> tells whether they stand in a \<^verbatim>\<open>try\<close>
  block. A native command that ends sets \<^verbatim>\<open>$LASTEXITCODE\<close> to its exit code, whatever
  the code is, and the script goes on: a nonzero exit code raises nothing. A command
  that cannot be found raises an exception: in a \<^verbatim>\<open>try\<close> block it reaches the
  \<^verbatim>\<open>catch\<close> block, elsewhere the error is reported and the next statement runs, with
  \<^verbatim>\<open>$LASTEXITCODE\<close> left as it was. A failing \<^verbatim>\<open>Set-Location\<close> reports an error that
  does not end anything. The activation script of a virtual environment has no
  \<^verbatim>\<open>exit\<close> statement, so calling it leaves \<^verbatim>\<open>$LASTEXITCODE\<close> alone. The value
  \<^verbatim>\<open>$null\<close> (\<open>None\<close>) of a \<^verbatim>\<open>$LASTEXITCODE\<close> never set differs from 0.
\<close>

fun exec_ps :: "host \<Rightarrow> bool \<Rightarrow> ps_stmt list \<Rightarrow> ps_state \<Rightarrow> ps_state" where
  "exec_ps host in_try [] s = s"
| "exec_ps host in_try (WriteHost msg # rest) s =
     exec_ps host in_try rest (s\<lparr>ps_printed := ps_printed s @ [msg]\<rparr>)"
| "exec_ps host in_try (ReadHost prompt # rest) s = exec_ps host in_try rest s"
| "exec_ps host in_try (Exit n # rest) s = s\<lparr>ps_exit := Some n\<rparr>"
| "exec_ps host in_try (Native l cmd # rest) s =
     (case host l of
        NotFound \<Rightarrow>
          if in_try then s\<lparr>ps_started := ps_started s @ [l], ps_thrown := True\<rparr>
          else exec_ps host in_try rest (s\<lparr>ps_started := ps_started s @ [l]\<rparr>)
      | Exited n \<Rightarrow>
          exec_ps host in_try rest
            (s\<lparr>lastexitcode := Some n, ps_started := ps_started s @ [l]\<rparr>))"
| "exec_ps host in_try (SetLocation l dir # rest) s =
     exec_ps host in_try rest (s\<lparr>ps_started := ps_started s @ [l]\<rparr>)"
| "exec_ps host in_try (Invoke l script # rest) s =
     (if host l = NotFound \<and> in_try
      then s\<lparr>ps_started := ps_started s @ [l], ps_thrown := True\<rparr>
      else exec_ps host in_try rest (s\<lparr>ps_started := ps_started s @ [l]\<rparr>))"
| "exec_ps host in_try (Try body handler # rest) s =
     (let s1 = exec_ps host True body s
      in if ps_exit s1 \<noteq> None then s1
         else if ps_thrown s1
         then (let s2 = exec_ps host in_try handler (s1\<lparr>ps_thrown := False\<rparr>)
               in if ps_stopped s2 then s2 else exec_ps host in_try rest s2)
         else exec_ps host in_try rest s1)"
| "exec_ps host in_try (IfLastExitCodeNe0 body # rest) s =
     (if lastexitcode s \<noteq> Some 0
      then (let s1 = exec_ps host in_try body s
            in if ps_stopped s1 then s1 else exec_ps host in_try rest s1)
      else exec_ps host in_try rest s)"

subsection \<open>The two scripts\<close>

text \<open>The separator of Windows paths, a backslash.\<close>

definition sep :: string where
  "sep = [CHR 0x5C]"

definition setup_bat :: "bat_stmt list" where
  "setup_bat =
     [Echo ''Setting up Odisha Krishi AI Platform...'',
      Echo [],
      Echo ''Checking if Python is installed...'',
      Run 6 ''python --version'',
      IfErrorlevelNeq0
        [Echo ''Python is not installed. Please install Python 3.9+ from https://python.org'',
         Pause,
         ExitB 1],
      Echo ''Checking if Node.js is installed...'',
      Run 14 ''node --version'',
      IfErrorlevelNeq0
        [Echo ''Node.js is not installed. Please install Node.js 18+ from https://nodejs.org'',
         Pause,
         ExitB 1],
      Echo [],
      Echo ''Setting up Frontend...'',
      Cd 23 ''frontend'',
      Run 24 ''call npm install'',
      IfErrorlevelNeq0 [Echo ''Failed to install frontend dependencies'', Pause, ExitB 1],
      Echo [],
      Echo ''Setting up Backend...'',
      Cd 33 (''..'' @ sep @ ''backend''),
      Run 34 ''python -m venv venv'',
      Run 35 (''call venv'' @ sep @ ''Scripts'' @ sep @ ''activate''),
      Run 36 ''pip install -r requirements.txt'',
      IfErrorlevelNeq0 [Echo ''Failed to install backend dependencies'', Pause, ExitB 1],
      Echo [],
      Echo ''Setting up ML Service...'',
      Cd 45 (''..'' @ sep @ ''ml-service''),
      Run 46 ''python -m venv venv'',
      Run 47 (''call venv'' @ sep @ ''Scripts'' @ sep @ ''activate''),
      Run 48 ''pip install -r requirements.txt'',
      IfErrorlevelNeq0 [Echo ''Failed to install ML service dependencies'', Pause, ExitB 1],
      Echo [],
      Echo ''Setup completed successfully!'',
      Echo [],
      Echo ''To run the application:'',
      Echo ''1. Open 3 separate command prompts'',
      Echo ''2. Run 'npm start' in the frontend directory'',
      Echo ''3. Run 'uvicorn app:app --reload --port 8000' in the backend directory'',
      Echo ''4. Run 'uvicorn app:app --reload --port 8001' in the ml-service directory'',
      Echo [],
      Pause]"

text \<open>
  The batch file started with error level \<open>e0\<close>. A batch file that reaches its end
  returns the error level it ends with.
\<close>

definition run_setup_bat :: "host \<Rightarrow> int \<Rightarrow> bat_state" where
  "run_setup_bat host e0 =
     exec_bat host setup_bat
       \<lparr> errorlevel = e0, bat_started = [], bat_printed = [], bat_exit = None \<rparr>"

definition bat_exit_code :: "bat_state \<Rightarrow> int" where
  "bat_exit_code s = (case bat_exit s of Some n \<Rightarrow> n | None \<Rightarrow> errorlevel s)"

definition setup_ps1 :: "ps_stmt list" where
  "setup_ps1 =
     [WriteHost ''Setting up Odisha Krishi AI Platform...'',
      WriteHost [],
      WriteHost ''Checking if Python is installed...'',
      Try [Native 6 ''python --version 2>&1'',
           WriteHost ''Python found: $pythonVersion'']
          [WriteHost ''Python is not installed. Please install Python 3.9+ from https://python.org'',
           ReadHost ''Press Enter to exit'',
           Exit 1],
      WriteHost ''Checking if Node.js is installed...'',
      Try [Native 17 ''node --version 2>&1'',
           WriteHost ''Node.js found: $nodeVersion'']
          [WriteHost ''Node.js is not installed. Please install Node.js 18+ from https://nodejs.org'',
           ReadHost ''Press Enter to exit'',
           Exit 1],
      WriteHost [],
      WriteHost ''Setting up Frontend...'',
      SetLocation 28 ''frontend'',
      Native 29 ''npm install'',
      IfLastExitCodeNe0
        [WriteHost ''Failed to install frontend dependencies'',
         ReadHost ''Press Enter to exit'',
         Exit 1],
      WriteHost [],
      WriteHost ''Setting up Backend...'',
      SetLocation 38 (''..'' @ sep @ ''backend''),
      Native 39 ''python -m venv venv'',
      Invoke 40 (''.'' @ sep @ ''venv'' @ sep @ ''Scripts'' @ sep @ ''Activate.ps1''),
      Native 41 ''pip install -r requirements.txt'',
      IfLastExitCodeNe0
        [WriteHost ''Failed to install backend dependencies'',
         ReadHost ''Press Enter to exit'',
         Exit 1],
      WriteHost [],
      WriteHost ''Setting up ML Service...'',
      SetLocation 50 (''..'' @ sep @ ''ml-service''),
      Native 51 ''python -m venv venv'',
      Invoke 52 (''.'' @ sep @ ''venv'' @ sep @ ''Scripts'' @ sep @ ''Activate.ps1''),
      Native 53 ''pip install -r requirements.txt'',
      IfLastExitCodeNe0
        [WriteHost ''Failed to install ML service dependencies'',
         ReadHost ''Press Enter to exit'',
         Exit 1],
      WriteHost [],
      WriteHost ''Setup completed successfully!'',
      WriteHost [],
      WriteHost ''To run the application:'',
      WriteHost ''1. Open 3 separate PowerShell windows'',
      WriteHost ''2. Run 'npm start' in the frontend directory'',
      WriteHost ''3. Run 'uvicorn app:app --reload --port 8000' in the backend directory'',
      WriteHost ''4. Run 'uvicorn app:app --reload --port 8001' in the ml-service directory'',
      WriteHost [],
      ReadHost ''Press Enter to exit'']"

text \<open>
  The script started with \<^verbatim>\<open>$LASTEXITCODE\<close> equal to \<open>l0\<close>. A script that reaches its
  end returns 0; one ended by an exception nobody caught returns 1.
\<close>

definition run_setup_ps1 :: "host \<Rightarrow> int option \<Rightarrow> ps_state" where
  "run_setup_ps1 host l0 =
     exec_ps host False setup_ps1
       \<lparr> lastexitcode = l0, ps_started = [], ps_printed = [], ps_exit = None,
         ps_thrown = False \<rparr>"

definition ps_exit_code :: "ps_state \<Rightarrow> int" where
  "ps_exit_code s =
     (case ps_exit s of Some n \<Rightarrow> n | None \<Rightarrow> (if ps_thrown s then 1 else 0))"

section \<open>Properties of \<^verbatim>\<open>YieldPredictionCard\<close>\<close>

lemma lineData_labels:
  "labels (lineData p) =
     [''Day 1'', ''Day 2'', ''Day 3'', ''Day 4'', ''Day 5'', ''Day 6'', ''Day 7'']"
  by (simp add: lineData_def upt_rec string_of_nat.simps digit_char_def)

text \<open>
  Claim C7. With \<^verbatim>\<open>predictions\<close> equal to \<^verbatim>\<open>null\<close> each of the three charts shows its
  hardcoded fallback array, and with a record whose field holds an array each chart
  shows exactly that array. Every array is truthy, the empty one too, so \<^verbatim>\<open>||\<close> never
  replaces a provided array by the fallback.
\<close>

theorem charts_render_fallback_or_provided_array:
  "dataset_data (line_chart (YieldPredictionCard None)) = JArr [3.2, 3.3, 3.35, 3.4, 3.42, 3.45, 3.5]
   \<and> dataset_data (bar_chart (YieldPredictionCard None)) = JArr [0.82, 0.76, 0.71, 0.79]
   \<and> dataset_data (radar_chart (YieldPredictionCard None)) = JArr [60, 40, 70, 35, 45, 50]
   \<and> (props ''trend'' = Some (JArr ts) \<longrightarrow>
        dataset_data (line_chart (YieldPredictionCard (Some props))) = JArr ts)
   \<and> (props ''confidence'' = Some (JArr cs) \<longrightarrow>
        dataset_data (bar_chart (YieldPredictionCard (Some props))) = JArr cs)
   \<and> (props ''risks'' = Some (JArr rs) \<longrightarrow>
        dataset_data (radar_chart (YieldPredictionCard (Some props))) = JArr rs)"
  by (simp add: YieldPredictionCard_def lineData_def barData_def radarData_def js_or_def
        opt_chain_def)

theorem charts_render_fallback_or_provided_array_witness:
  "dataset_data (line_chart (YieldPredictionCard
      (Some [''trend'' \<mapsto> JArr [], ''confidence'' \<mapsto> JArr [0.5], ''risks'' \<mapsto> JArr [1, 2]])))
     = JArr []
   \<and> dataset_data (bar_chart (YieldPredictionCard
      (Some [''trend'' \<mapsto> JArr [], ''confidence'' \<mapsto> JArr [0.5], ''risks'' \<mapsto> JArr [1, 2]])))
     = JArr [0.5]
   \<and> dataset_data (radar_chart (YieldPredictionCard
      (Some [''trend'' \<mapsto> JArr [], ''confidence'' \<mapsto> JArr [0.5], ''risks'' \<mapsto> JArr [1, 2]])))
     = JArr [1, 2]"
  using charts_render_fallback_or_provided_array
    [of "[''trend'' \<mapsto> JArr [], ''confidence'' \<mapsto> JArr [0.5], ''risks'' \<mapsto> JArr [1, 2]]"
        "[]" "[0.5]" "[1, 2]"]
  by simp

text \<open>
  Claim C10. The labels of the three charts do not depend on the \<^verbatim>\<open>predictions\<close> prop:
  for any two props the labels agree, and they are always the seven day labels
  \<^verbatim>\<open>Day 1\<close> to \<^verbatim>\<open>Day 7\<close>, the four crop names and the six risk-factor names.
\<close>

theorem chart_labels_independent_of_predictions:
  "labels (line_chart (YieldPredictionCard p)) = labels (line_chart (YieldPredictionCard q))
   \<and> labels (bar_chart (YieldPredictionCard p)) = labels (bar_chart (YieldPredictionCard q))
   \<and> labels (radar_chart (YieldPredictionCard p)) = labels (radar_chart (YieldPredictionCard q))
   \<and> labels (line_chart (YieldPredictionCard p)) =
       [''Day 1'', ''Day 2'', ''Day 3'', ''Day 4'', ''Day 5'', ''Day 6'', ''Day 7'']
   \<and> labels (bar_chart (YieldPredictionCard p)) = [''Rice'', ''Wheat'', ''Maize'', ''Sugarcane'']
   \<and> labels (radar_chart (YieldPredictionCard p)) =
       [''Rainfall'', ''Temperature'', ''Soil Moisture'', ''N'', ''P'', ''K'']"
  by (simp add: YieldPredictionCard_def lineData_labels barData_def radarData_def)

section \<open>Properties of the \<^verbatim>\<open>Dashboard\<close>\<close>

subsection \<open>Runs of events\<close>

lemma fst_run_Cons: "fst (run s (e # es)) = fst (run (fst (step s e)) es)"
  by (simp split: prod.splits)

lemma snd_run_Cons: "snd (run s (e # es)) = snd (step s e) @ snd (run (fst (step s e)) es)"
  by (simp split: prod.splits)

lemma fst_run_append: "fst (run s (es @ es')) = fst (run (fst (run s es)) es')"
  by (induction es arbitrary: s) (simp_all add: fst_run_Cons del: run.simps(2))

lemma snd_run_append:
  "snd (run s (es @ es')) = snd (run s es) @ snd (run (fst (run s es)) es')"
  by (induction es arbitrary: s) (simp_all add: fst_run_Cons snd_run_Cons del: run.simps(2))

lemma assignments_append: "assignments (fx @ fx') = assignments fx + assignments fx'"
  by (induction fx rule: assignments.induct) auto

lemma elapsed_Cons: "elapsed (e # es) = elapsed [e] + elapsed es"
  by (cases e) simp_all

lemma step_no_timer:
  "timer s = None \<Longrightarrow>
     assignments (snd (step s e)) = 0 \<and> predictions (fst (step s e)) = predictions s
     \<and> timer (fst (step s e)) = None"
  by (cases e) (simp_all add: LanguageSelector_onChange_def)

lemma run_no_timer:
  "timer s = None \<Longrightarrow>
     assignments (snd (run s es)) = 0 \<and> predictions (fst (run s es)) = predictions s
     \<and> timer (fst (run s es)) = None"
proof (induction es arbitrary: s)
  case Nil then show ?case by simp
next
  case (Cons e es)
  from step_no_timer [OF Cons.prems, of e] Cons.IH [of "fst (step s e)"]
  show ?case
    by (simp add: fst_run_Cons snd_run_Cons assignments_append del: run.simps(2))
qed

lemma step_before_delay:
  "timer s = Some left \<Longrightarrow> elapsed [e] < left \<Longrightarrow>
     assignments (snd (step s e)) = 0 \<and> predictions (fst (step s e)) = predictions s
     \<and> (timer (fst (step s e)) = None
        \<or> timer (fst (step s e)) = Some (left - elapsed [e]))"
  by (cases e) (simp_all add: LanguageSelector_onChange_def)

lemma run_before_delay:
  "timer s = Some left \<Longrightarrow> elapsed es < left \<Longrightarrow>
     assignments (snd (run s es)) = 0 \<and> predictions (fst (run s es)) = predictions s"
proof (induction es arbitrary: s left)
  case Nil then show ?case by simp
next
  case (Cons e es)
  from Cons.prems have lt: "elapsed [e] < left" "elapsed es < left - elapsed [e]"
    using elapsed_Cons [of e es] by simp_all
  note st = step_before_delay [OF Cons.prems(1) lt(1)]
  from st have "timer (fst (step s e)) = None \<or> timer (fst (step s e)) = Some (left - elapsed [e])"
    by simp
  then have "assignments (snd (run (fst (step s e)) es)) = 0
      \<and> predictions (fst (run (fst (step s e)) es)) = predictions (fst (step s e))"
  proof
    assume "timer (fst (step s e)) = None"
    then show ?thesis using run_no_timer by blast
  next
    assume "timer (fst (step s e)) = Some (left - elapsed [e])"
    then show ?thesis using Cons.IH lt(2) by blast
  qed
  with st show ?case
    by (simp add: fst_run_Cons snd_run_Cons assignments_append del: run.simps(2))
qed

lemma step_mounted_timer:
  "timer s = Some left \<Longrightarrow> 0 < left \<Longrightarrow> e \<noteq> Unmount \<Longrightarrow>
     (if left \<le> elapsed [e]
      then assignments (snd (step s e)) = 1 \<and> predictions (fst (step s e)) = Some placeholder
           \<and> timer (fst (step s e)) = None
      else assignments (snd (step s e)) = 0 \<and> timer (fst (step s e)) = Some (left - elapsed [e]))"
  by (cases e) (simp_all add: LanguageSelector_onChange_def)

lemma run_after_delay:
  "timer s = Some left \<Longrightarrow> 0 < left \<Longrightarrow> Unmount \<notin> set es \<Longrightarrow> left \<le> elapsed es \<Longrightarrow>
     assignments (snd (run s es)) = 1 \<and> predictions (fst (run s es)) = Some placeholder
     \<and> timer (fst (run s es)) = None"
proof (induction es arbitrary: s left)
  case Nil then show ?case by simp
next
  case (Cons e es)
  from Cons.prems have ne: "e \<noteq> Unmount" "Unmount \<notin> set es" by auto
  note st = step_mounted_timer [OF Cons.prems(1) Cons.prems(2) ne(1)]
  show ?case
  proof (cases "left \<le> elapsed [e]")
    case True
    with st have a: "assignments (snd (step s e)) = 1"
      "predictions (fst (step s e)) = Some placeholder" "timer (fst (step s e)) = None"
      by simp_all
    from run_no_timer [OF a(3), of es] a show ?thesis
      by (simp add: fst_run_Cons snd_run_Cons assignments_append del: run.simps(2))
  next
    case False
    with st have a: "assignments (snd (step s e)) = 0"
      "timer (fst (step s e)) = Some (left - elapsed [e])"
      by simp_all
    from Cons.prems(4) False have "left - elapsed [e] \<le> elapsed es" "0 < left - elapsed [e]"
      using elapsed_Cons [of e es] by simp_all
    from Cons.IH [OF a(2) this(2) ne(2) this(1)] a show ?thesis
      by (simp add: fst_run_Cons snd_run_Cons assignments_append del: run.simps(2))
  qed
qed

lemma step_at_most_once:
  "assignments (snd (step s e)) \<le> 1
   \<and> (assignments (snd (step s e)) = 1 \<longrightarrow> timer (fst (step s e)) = None)"
  by (cases e) (simp_all add: LanguageSelector_onChange_def split: option.splits)

lemma run_at_most_once: "assignments (snd (run s es)) \<le> 1"
proof (induction es arbitrary: s)
  case Nil then show ?case by simp
next
  case (Cons e es)
  show ?case
  proof (cases "assignments (snd (step s e)) = 1")
    case True
    with step_at_most_once [of s e] have "timer (fst (step s e)) = None" by simp
    from run_no_timer [OF this, of es] True show ?thesis
      by (simp add: snd_run_Cons assignments_append del: run.simps(2))
  next
    case False
    with step_at_most_once [of s e] have "assignments (snd (step s e)) = 0" by simp
    with Cons.IH [of "fst (step s e)"] show ?thesis
      by (simp add: snd_run_Cons assignments_append del: run.simps(2))
  qed
qed

text \<open>
  Claim C4. For every mount of the dashboard the placeholder assignment happens at most
  once, whatever follows; it happens exactly once as soon as 400 ms have passed with
  the component mounted; and when the component is unmounted before 400 ms have
  passed, the assignment never happens and \<^verbatim>\<open>predictions\<close> stays \<^verbatim>\<open>null\<close>.
\<close>

theorem placeholder_assigned_once_unless_unmounted:
  "assignments (snd (run mount es)) \<le> 1
   \<and> (Unmount \<notin> set pre \<and> 400 \<le> elapsed pre \<longrightarrow>
        assignments (snd (run mount (pre @ post))) = 1
        \<and> predictions (fst (run mount (pre @ post))) = Some placeholder)
   \<and> (elapsed pre < 400 \<longrightarrow>
        assignments (snd (run mount (pre @ Unmount # post))) = 0
        \<and> predictions (fst (run mount (pre @ Unmount # post))) = None)"
proof (intro conjI impI)
  show "assignments (snd (run mount es)) \<le> 1" by (rule run_at_most_once)
next
  assume a: "Unmount \<notin> set pre \<and> 400 \<le> elapsed pre"
  have t: "timer mount = Some 400" by (simp add: mount_def)
  from a run_after_delay [OF t, of pre] have
    r: "assignments (snd (run mount pre)) = 1"
       "predictions (fst (run mount pre)) = Some placeholder"
       "timer (fst (run mount pre)) = None"
    by simp_all
  from run_no_timer [OF r(3), of post] r
  show "assignments (snd (run mount (pre @ post))) = 1"
    and "predictions (fst (run mount (pre @ post))) = Some placeholder"
    by (simp_all add: fst_run_append snd_run_append assignments_append)
next
  assume a: "elapsed pre < 400"
  have t: "timer mount = Some 400" by (simp add: mount_def)
  from run_before_delay [OF t a] have
    r: "assignments (snd (run mount pre)) = 0" "predictions (fst (run mount pre)) = None"
    by (simp_all add: mount_def)
  have u: "timer (fst (step (fst (run mount pre)) Unmount)) = None" by simp
  from run_no_timer [OF u, of post] r
  show "assignments (snd (run mount (pre @ Unmount # post))) = 0"
    and "predictions (fst (run mount (pre @ Unmount # post))) = None"
    by (simp_all add: fst_run_append snd_run_append fst_run_Cons snd_run_Cons
          assignments_append del: run.simps(2))
qed

theorem placeholder_assigned_once_unless_unmounted_witness:
  "assignments (snd (run mount [Elapse 150, Change Hindi, Elapse 250, Elapse 90, Unmount])) = 1
   \<and> predictions (fst (run mount [Elapse 150, Change Hindi, Elapse 250, Elapse 90, Unmount]))
       = Some placeholder
   \<and> assignments (snd (run mount [Elapse 399, Unmount, Elapse 500])) = 0
   \<and> predictions (fst (run mount [Elapse 399, Unmount, Elapse 500])) = None"
  using placeholder_assigned_once_unless_unmounted
    [of "[]" "[Elapse 150, Change Hindi, Elapse 250]" "[Elapse 90, Unmount]"]
    placeholder_assigned_once_unless_unmounted [of "[]" "[Elapse 399]" "[Elapse 500]"]
  by simp

subsection \<open>The language selector\<close>

lemma step_language_supported:
  "selectedLanguage s \<in> {''en'', ''hi'', ''or''} \<Longrightarrow>
     selectedLanguage (fst (step s e)) \<in> {''en'', ''hi'', ''or''}"
proof (cases e)
  case (Change picked)
  assume "selectedLanguage s \<in> {''en'', ''hi'', ''or''}"
  with Change show ?thesis
    by (cases picked) (simp_all add: LanguageSelector_onChange_def)
qed (auto split: option.splits)

lemma run_language_supported:
  "selectedLanguage s \<in> {''en'', ''hi'', ''or''} \<Longrightarrow>
     selectedLanguage (fst (run s es)) \<in> {''en'', ''hi'', ''or''}"
proof (induction es arbitrary: s)
  case Nil then show ?case by simp
next
  case (Cons e es)
  from Cons.IH [OF step_language_supported [OF Cons.prems, of e]] show ?case
    by (simp only: fst_run_Cons)
qed

text \<open>
  Claim C5. Whatever has happened since mounting, the value the selector shows is one
  of the codes \<^verbatim>\<open>en\<close>, \<^verbatim>\<open>hi\<close> and \<^verbatim>\<open>or\<close>, which are exactly the values on offer. On
  a change event the handler calls its callback with the value of the option picked:
  in the mounted dashboard the setter receives that code and the state holds it
  afterwards, whatever code was selected before.
\<close>

theorem language_selector_reflects_supported_code:
  "select_value (fst (Dashboard_view (fst (run mount es)))) \<in> {''en'', ''hi'', ''or''}
   \<and> set (option_values (LanguageSelector cur)) = {''en'', ''hi'', ''or''}
   \<and> LanguageSelector_onChange cb picked = cb (option_value picked)
   \<and> snd (step (s\<lparr>mounted := True\<rparr>) (Change picked)) = [SetSelectedLanguage (option_value picked)]
   \<and> selectedLanguage (fst (step (s\<lparr>mounted := True\<rparr>) (Change picked))) = option_value picked"
proof -
  have "selectedLanguage mount \<in> {''en'', ''hi'', ''or''}" by (simp add: mount_def)
  from run_language_supported [OF this, of es]
  have "select_value (fst (Dashboard_view (fst (run mount es)))) \<in> {''en'', ''hi'', ''or''}"
    by (simp add: Dashboard_view_def LanguageSelector_def)
  moreover have "set (option_values (LanguageSelector cur)) = {''en'', ''hi'', ''or''}"
    by (simp add: LanguageSelector_def)
  ultimately show ?thesis by (simp add: LanguageSelector_onChange_def)
qed

subsection \<open>The placeholder record\<close>

lemma step_predictions_kept:
  "predictions s = None \<or> (predictions s = Some placeholder \<and> timer s = None) \<Longrightarrow>
     predictions (fst (step s e)) = None
     \<or> (predictions (fst (step s e)) = Some placeholder \<and> timer (fst (step s e)) = None)"
  by (cases e) (auto simp: LanguageSelector_onChange_def split: option.splits)

lemma run_predictions_kept:
  "predictions s = None \<or> (predictions s = Some placeholder \<and> timer s = None) \<Longrightarrow>
     predictions (fst (run s es)) = None
     \<or> (predictions (fst (run s es)) = Some placeholder \<and> timer (fst (run s es)) = None)"
proof (induction es arbitrary: s)
  case Nil then show ?case by simp
next
  case (Cons e es)
  from Cons.IH [OF step_predictions_kept [OF Cons.prems, of e]] show ?case
    by (simp only: fst_run_Cons)
qed

text \<open>
  Claim C6. The record the dashboard assigns is a literal with three arrays: a trend of
  length 7, as many as the day labels; a confidence array of length 4, as many as the
  crop labels; and a risks array of length 6, as many as the risk-factor labels. The
  state \<^verbatim>\<open>predictions\<close> is only ever \<^verbatim>\<open>null\<close> or this record, and once it is assigned
  no later event changes it.
\<close>

theorem placeholder_lengths_fixed_and_kept:
  "(\<exists>ts cs rs.
      placeholder ''trend'' = Some (JArr ts) \<and> length ts = 7
      \<and> length ts = length (labels (line_chart (YieldPredictionCard (Some placeholder))))
      \<and> placeholder ''confidence'' = Some (JArr cs) \<and> length cs = 4
      \<and> length cs = length (labels (bar_chart (YieldPredictionCard (Some placeholder))))
      \<and> placeholder ''risks'' = Some (JArr rs) \<and> length rs = 6
      \<and> length rs = length (labels (radar_chart (YieldPredictionCard (Some placeholder)))))
   \<and> (predictions (fst (run mount es)) = None
       \<or> predictions (fst (run mount es)) = Some placeholder)
   \<and> (predictions (fst (run mount es)) \<noteq> None \<longrightarrow>
        predictions (fst (run mount (es @ es'))) = Some placeholder)"
proof (intro conjI impI)
  show "\<exists>ts cs rs.
      placeholder ''trend'' = Some (JArr ts) \<and> length ts = 7
      \<and> length ts = length (labels (line_chart (YieldPredictionCard (Some placeholder))))
      \<and> placeholder ''confidence'' = Some (JArr cs) \<and> length cs = 4
      \<and> length cs = length (labels (bar_chart (YieldPredictionCard (Some placeholder))))
      \<and> placeholder ''risks'' = Some (JArr rs) \<and> length rs = 6
      \<and> length rs = length (labels (radar_chart (YieldPredictionCard (Some placeholder))))"
    by (simp add: placeholder_def YieldPredictionCard_def lineData_labels barData_def radarData_def)
next
  have init: "predictions mount = None \<or> (predictions mount = Some placeholder \<and> timer mount = None)"
    by (simp add: mount_def)
  note inv = run_predictions_kept [OF init, of es]
  from inv show "predictions (fst (run mount es)) = None
       \<or> predictions (fst (run mount es)) = Some placeholder"
    by blast
  assume "predictions (fst (run mount es)) \<noteq> None"
  with inv have "predictions (fst (run mount es)) = Some placeholder"
    and t: "timer (fst (run mount es)) = None"
    by simp_all
  with run_no_timer [OF t, of es']
  show "predictions (fst (run mount (es @ es'))) = Some placeholder"
    by (simp add: fst_run_append)
qed

theorem placeholder_lengths_fixed_and_kept_witness:
  "predictions (fst (run mount [Elapse 400])) \<noteq> None
   \<and> predictions (fst (run mount ([Elapse 400] @ [Change Odia, Elapse 100000, Unmount])))
       = Some placeholder"
  using placeholder_lengths_fixed_and_kept [of "[Elapse 400]" "[Change Odia, Elapse 100000, Unmount]"]
  by (simp add: mount_def)

section \<open>Properties of double arithmetic\<close>

subsection \<open>Rounding to the nearest integer\<close>

lemma rne_of_int [simp]: "rne (of_int n) = n"
  by (simp add: rne_def)

lemma rne_0 [simp]: "rne 0 = 0"
  using rne_of_int [of 0] by simp

lemma two_powi_less_iff: "(2::real) powi m < 2 powi n \<longleftrightarrow> m < n"
proof
  assume "(2::real) powi m < 2 powi n"
  show "m < n"
  proof (rule ccontr)
    assume "\<not> m < n"
    then have "(2::real) powi n \<le> 2 powi m" by (intro power_int_increasing) simp_all
    with \<open>(2::real) powi m < 2 powi n\<close> show False by simp
  qed
next
  assume "m < n"
  then show "(2::real) powi m < 2 powi n" by (intro power_int_strict_increasing) simp_all
qed

lemma two_powi_le_iff: "(2::real) powi m \<le> 2 powi n \<longleftrightarrow> m \<le> n"
  using two_powi_less_iff [of n m] by (simp add: not_less [symmetric])

lemma two_powi_pos: "(0::real) < 2 powi k"
  by simp

lemma rne_near: "of_int n - 1 / 2 < y \<Longrightarrow> y < of_int n + 1 / 2 \<Longrightarrow> rne y = n"
proof -
  assume a: "of_int n - 1 / 2 < y" "y < of_int n + 1 / 2"
  show ?thesis
  proof (cases "of_int n \<le> y")
    case True
    with a have "\<lfloor>y\<rfloor> = n" by (intro floor_unique) simp_all
    with a show ?thesis by (simp add: rne_def Let_def)
  next
    case False
    with a have "\<lfloor>y\<rfloor> = n - 1" by (intro floor_unique) simp_all
    with a False show ?thesis by (simp add: rne_def Let_def)
  qed
qed

lemma rne_tie: "y = of_int n + 1 / 2 \<Longrightarrow> rne y = (if even n then n else n + 1)"
proof -
  assume a: "y = of_int n + 1 / 2"
  then have "\<lfloor>y\<rfloor> = n" by (intro floor_unique) simp_all
  with a show ?thesis by (simp add: rne_def Let_def)
qed

lemma rne_error: "\<bar>of_int (rne y) - y\<bar> \<le> 1 / 2"
proof -
  have "of_int \<lfloor>y\<rfloor> \<le> y" "y < of_int \<lfloor>y\<rfloor> + 1" by linarith+
  then show ?thesis by (auto simp: rne_def Let_def)
qed

lemma rne_ge: "of_int n - 1 / 2 < y \<Longrightarrow> n \<le> rne y"
  using rne_error [of y] by linarith

lemma rne_le: "y < of_int n + 1 / 2 \<Longrightarrow> rne y \<le> n"
  using rne_error [of y] by linarith

lemma rne_mono: "x \<le> y \<Longrightarrow> rne x \<le> rne y"
proof -
  assume xy: "x \<le> y"
  have fx: "of_int \<lfloor>x\<rfloor> \<le> x" "x < of_int \<lfloor>x\<rfloor> + 1" by linarith+
  have fy: "of_int \<lfloor>y\<rfloor> \<le> y" "y < of_int \<lfloor>y\<rfloor> + 1" by linarith+
  from xy have "\<lfloor>x\<rfloor> \<le> \<lfloor>y\<rfloor>" by (rule floor_mono)
  then consider "\<lfloor>x\<rfloor> = \<lfloor>y\<rfloor>" | "\<lfloor>x\<rfloor> + 1 \<le> \<lfloor>y\<rfloor>" by linarith
  then show ?thesis
  proof cases
    case 1
    with xy show ?thesis by (auto simp: rne_def Let_def)
  next
    case 2
    have "rne x \<le> \<lfloor>x\<rfloor> + 1" by (auto simp: rne_def Let_def)
    moreover have "\<lfloor>y\<rfloor> \<le> rne y" by (auto simp: rne_def Let_def)
    ultimately show ?thesis using 2 by linarith
  qed
qed

lemma rne_minus: "rne (- y) = - rne y"
proof (cases "y = of_int \<lfloor>y\<rfloor>")
  case True
  then obtain n where "y = of_int n" ..
  then show ?thesis by (simp flip: of_int_minus)
next
  case False
  then have lt: "of_int \<lfloor>y\<rfloor> < y" "y < of_int \<lfloor>y\<rfloor> + 1" by linarith+
  have fl: "\<lfloor>- y\<rfloor> = - \<lfloor>y\<rfloor> - 1"
  proof (rule floor_unique)
    show "of_int (- \<lfloor>y\<rfloor> - 1) \<le> - y" by (simp, linarith)
    show "- y < of_int (- \<lfloor>y\<rfloor> - 1) + 1" using lt(1) by simp
  qed
  show ?thesis
  proof (cases "y - of_int \<lfloor>y\<rfloor> = 1 / 2")
    case True
    then have "- y - of_int \<lfloor>- y\<rfloor> = 1 / 2" using fl by simp
    with True fl show ?thesis by (auto simp: rne_def Let_def)
  next
    case False
    with fl lt show ?thesis by (auto simp: rne_def Let_def)
  qed
qed

subsection \<open>The spacing of the doubles\<close>

lemma floor_log2_iff:
  "0 < x \<Longrightarrow> \<lfloor>log 2 x\<rfloor> = k \<longleftrightarrow> 2 powi k \<le> x \<and> x < 2 powi (k + 1)"
  using floor_log_eq_powr_iff [of x 2 k] powr_real_of_int' [of 2 k] powr_real_of_int' [of 2 "k + 1"]
  by simp

lemma floor_log2_bounds:
  assumes "x \<noteq> 0"
  shows "2 powi \<lfloor>log 2 \<bar>x\<bar>\<rfloor> \<le> \<bar>x\<bar>" and "\<bar>x\<bar> < 2 powi (\<lfloor>log 2 \<bar>x\<bar>\<rfloor> + 1)"
  using floor_log2_iff [of "\<bar>x\<bar>" "\<lfloor>log 2 \<bar>x\<bar>\<rfloor>"] assms by simp_all

lemma expo_ge: "- 1074 \<le> expo x"
  by (simp add: expo_def)

lemma expo_minus [simp]: "expo (- x) = expo x"
  by (simp add: expo_def)

lemma expo_eq:
  "2 powi k \<le> \<bar>x\<bar> \<Longrightarrow> \<bar>x\<bar> < 2 powi (k + 1) \<Longrightarrow> expo x = max (k - 52) (- 1074)"
proof -
  assume a: "2 powi k \<le> \<bar>x\<bar>" "\<bar>x\<bar> < 2 powi (k + 1)"
  from a two_powi_pos [of k] have "0 < \<bar>x\<bar>" by linarith
  then have "x \<noteq> 0" by simp
  moreover from a floor_log2_iff [of "\<bar>x\<bar>" k] \<open>x \<noteq> 0\<close> have "\<lfloor>log 2 \<bar>x\<bar>\<rfloor> = k" by simp
  ultimately show ?thesis by (simp add: expo_def)
qed

lemma expo_mono: "\<bar>x\<bar> \<le> \<bar>y\<bar> \<Longrightarrow> expo x \<le> expo y"
proof (cases "x = 0")
  case True
  then show ?thesis by (simp add: expo_def)
next
  case False
  assume le: "\<bar>x\<bar> \<le> \<bar>y\<bar>"
  with False have "y \<noteq> 0" by auto
  from False le have "log 2 \<bar>x\<bar> \<le> log 2 \<bar>y\<bar>" by simp
  then have "\<lfloor>log 2 \<bar>x\<bar>\<rfloor> \<le> \<lfloor>log 2 \<bar>y\<bar>\<rfloor>" by (rule floor_mono)
  with False \<open>y \<noteq> 0\<close> show ?thesis by (simp add: expo_def)
qed

lemma expo_le:
  assumes "\<bar>x\<bar> < 2 powi k"
  shows "expo x \<le> max (k - 53) (- 1074)"
proof (cases "x = 0")
  case True
  then show ?thesis by (simp add: expo_def)
next
  case False
  from floor_log2_bounds(1) [OF False] assms have "(2::real) powi \<lfloor>log 2 \<bar>x\<bar>\<rfloor> < 2 powi k"
    by linarith
  then have "\<lfloor>log 2 \<bar>x\<bar>\<rfloor> < k"
    by (simp add: two_powi_less_iff)
  with False show ?thesis by (simp add: expo_def)
qed

lemma expo_ge_normal:
  assumes "2 powi k \<le> \<bar>x\<bar>"
  shows "k - 52 \<le> expo x"
proof -
  from assms two_powi_pos [of k] have "0 < \<bar>x\<bar>" by linarith
  then have nz: "x \<noteq> 0" by simp
  from floor_log2_bounds(2) [OF nz] assms have "(2::real) powi k < 2 powi (\<lfloor>log 2 \<bar>x\<bar>\<rfloor> + 1)"
    by linarith
  then have "k < \<lfloor>log 2 \<bar>x\<bar>\<rfloor> + 1"
    by (simp add: two_powi_less_iff)
  with nz show ?thesis by (simp add: expo_def)
qed

lemma abs_less_top: "\<bar>x\<bar> < 2 powi (expo x + 53)"
proof (cases "x = 0")
  case True
  then show ?thesis by simp
next
  case False
  have "\<lfloor>log 2 \<bar>x\<bar>\<rfloor> + 1 \<le> expo x + 53" using False by (simp add: expo_def)
  then have "(2::real) powi (\<lfloor>log 2 \<bar>x\<bar>\<rfloor> + 1) \<le> 2 powi (expo x + 53)"
    by (intro power_int_increasing) simp_all
  with floor_log2_bounds(2) [OF False] show ?thesis by linarith
qed

subsection \<open>Rounding is odd, monotone and idempotent\<close>

lemma round_double_0 [simp]: "round_double 0 = 0"
  by (simp add: round_double_def)

lemma round_double_minus: "round_double (- x) = - round_double x"
  by (simp add: round_double_def rne_minus)

lemma round_double_nonneg: "0 \<le> x \<Longrightarrow> 0 \<le> round_double x"
proof -
  assume "0 \<le> x"
  then have "0 \<le> x / 2 powi expo x" by simp
  from rne_mono [OF this] have "0 \<le> rne (x / 2 powi expo x)" by simp
  then show ?thesis by (simp add: round_double_def)
qed

lemma round_double_error: "\<bar>round_double x - x\<bar> \<le> 2 powi expo x / 2"
proof -
  let ?q = "(2::real) powi expo x"
  have q: "0 < ?q" by simp
  have "round_double x - x = (of_int (rne (x / ?q)) - x / ?q) * ?q"
    using q by (simp add: round_double_def algebra_simps)
  then have "\<bar>round_double x - x\<bar> = \<bar>of_int (rne (x / ?q)) - x / ?q\<bar> * ?q"
    using q by (simp add: abs_mult)
  also have "\<dots> \<le> 1 / 2 * ?q"
    using rne_error [of "x / ?q"] q by (intro mult_right_mono) simp_all
  finally show ?thesis by simp
qed


lemma two_powi_diff_int:
  assumes "j \<le> k"
  shows "(2::real) powi k / 2 powi j = of_int (2 ^ nat (k - j))"
proof -
  have "(2::real) powi k = 2 powi j * 2 powi (k - j)"
    by (simp flip: power_int_add)
  moreover have "(2::real) powi (k - j) = 2 ^ nat (k - j)"
    using assms by (simp add: power_int_def)
  ultimately show ?thesis by simp
qed

lemma round_double_mono_pos:
  assumes "0 < x" and "x \<le> y"
  shows "round_double x \<le> round_double y"
proof -
  have le: "expo x \<le> expo y" using assms by (intro expo_mono) simp
  show ?thesis
  proof (cases "expo x = expo y")
    case True
    let ?q = "(2::real) powi expo y"
    have "x / ?q \<le> y / ?q" using assms by (simp add: divide_right_mono)
    from rne_mono [OF this] have "of_int (rne (x / ?q)) * ?q \<le> of_int (rne (y / ?q)) * ?q"
      by (intro mult_right_mono) simp_all
    with True show ?thesis by (simp add: round_double_def)
  next
    case False
    with le have lt: "expo x < expo y" by simp
    let ?e = "expo y" and ?d = "expo x"
    let ?P = "(2::real) powi (?e + 52)"
    have ynz: "y \<noteq> 0" and xnz: "x \<noteq> 0" using assms by simp_all
    from lt expo_ge [of x] have norm: "?e = \<lfloor>log 2 \<bar>y\<bar>\<rfloor> - 52"
      using ynz by (simp add: expo_def)
    have Py: "?P \<le> y"
      using floor_log2_bounds(1) [OF ynz] assms norm by simp
    have "\<lfloor>log 2 \<bar>x\<bar>\<rfloor> + 1 \<le> ?e + 52"
      using lt xnz by (simp add: expo_def)
    then have "(2::real) powi (\<lfloor>log 2 \<bar>x\<bar>\<rfloor> + 1) \<le> ?P"
      by (simp add: two_powi_le_iff)
    with floor_log2_bounds(2) [OF xnz] assms have xP: "x < ?P" by simp
    have Pe: "?P / (2::real) powi ?e = of_int (2 ^ nat 52)"
      using two_powi_diff_int [of ?e "?e + 52"] by simp
    have "?P / (2::real) powi ?e \<le> y / (2::real) powi ?e"
      using Py by (intro divide_right_mono) simp_all
    then have "of_int (2 ^ nat 52) \<le> y / (2::real) powi ?e"
      by (simp only: Pe)
    from rne_mono [OF this] have "2 ^ nat 52 \<le> rne (y / (2::real) powi ?e)"
      by (simp only: rne_of_int)
    then have A: "of_int (2 ^ nat 52) * (2::real) powi ?e
                    \<le> of_int (rne (y / (2::real) powi ?e)) * (2::real) powi ?e"
      by (intro mult_right_mono) simp_all
    have B: "of_int (2 ^ nat 52) * (2::real) powi ?e = ?P"
      using Pe by (simp add: field_simps)
    from A [unfolded B] have hi: "?P \<le> round_double y" by (simp only: round_double_def)
    have dP: "?d \<le> ?e + 52" using lt by simp
    have Pd: "?P / (2::real) powi ?d = of_int (2 ^ nat (?e + 52 - ?d))"
      using two_powi_diff_int [OF dP] by simp
    have "x / (2::real) powi ?d \<le> ?P / (2::real) powi ?d"
      using xP by (intro divide_right_mono) simp_all
    then have "x / (2::real) powi ?d \<le> of_int (2 ^ nat (?e + 52 - ?d))" by (simp only: Pd)
    from rne_mono [OF this] have "rne (x / (2::real) powi ?d) \<le> 2 ^ nat (?e + 52 - ?d)"
      by (simp only: rne_of_int)
    then have C: "of_int (rne (x / (2::real) powi ?d)) * (2::real) powi ?d
                 \<le> of_int (2 ^ nat (?e + 52 - ?d)) * (2::real) powi ?d"
      by (intro mult_right_mono) simp_all
    have D: "of_int (2 ^ nat (?e + 52 - ?d)) * (2::real) powi ?d = ?P"
      using Pd by (simp add: field_simps)
    from C [unfolded D] have "round_double x \<le> ?P" by (simp only: round_double_def)
    with hi show ?thesis by simp
  qed
qed

lemma round_double_mono: "x \<le> y \<Longrightarrow> round_double x \<le> round_double y"
proof -
  assume xy: "x \<le> y"
  consider "0 < x" | "x \<le> 0" "0 \<le> y" | "y < 0" by linarith
  then show ?thesis
  proof cases
    case 1
    from 1 xy show ?thesis by (rule round_double_mono_pos)
  next
    case 2
    from 2(1) have "0 \<le> round_double (- x)" by (intro round_double_nonneg) simp
    then have "round_double x \<le> 0" by (simp add: round_double_minus)
    with round_double_nonneg [OF 2(2)] show ?thesis by simp
  next
    case 3
    with xy have "0 < - y" "- y \<le> - x" by simp_all
    from round_double_mono_pos [OF this] show ?thesis by (simp add: round_double_minus)
  qed
qed

lemma round_double_grid:
  assumes "x = of_int m * 2 powi j" and "expo x \<le> j"
  shows "round_double x = x"
proof -
  have "x / 2 powi expo x = of_int m * (2 powi j / 2 powi expo x)"
    using assms(1) by simp
  also have "\<dots> = of_int (m * 2 ^ nat (j - expo x))"
    using two_powi_diff_int [OF assms(2)] by simp
  finally have "rne (x / 2 powi expo x) = m * 2 ^ nat (j - expo x)"
    by (simp only: rne_of_int)
  then have "round_double x = of_int m * (of_int (2 ^ nat (j - expo x)) * 2 powi expo x)"
    by (simp add: round_double_def)
  also have "of_int (2 ^ nat (j - expo x)) * 2 powi expo x = (2::real) powi j"
    using two_powi_diff_int [OF assms(2)] by (simp add: field_simps)
  finally show ?thesis using assms(1) by simp
qed

lemma round_double_representable:
  assumes "x = of_int m * 2 powi j" and "\<bar>m\<bar> < 2 ^ 53" and "- 1074 \<le> j"
  shows "round_double x = x"
proof -
  have "\<bar>x\<bar> = of_int \<bar>m\<bar> * 2 powi j" using assms(1) by (simp add: abs_mult)
  also have "\<dots> < of_int (2 ^ 53) * 2 powi j"
    using assms(2) by (intro mult_strict_right_mono) (simp_all del: of_int_power of_int_numeral)
  also have "\<dots> = 2 powi (j + 53)" by (simp add: power_int_add)
  finally have "expo x \<le> max (j + 53 - 53) (- 1074)" by (rule expo_le)
  with assms(3) have "expo x \<le> j" by simp
  with assms(1) show ?thesis by (rule round_double_grid)
qed

lemma round_double_idem: "round_double (round_double x) = round_double x"
proof -
  let ?e = "expo x"
  let ?n = "rne (x / 2 powi ?e)"
  let ?y = "round_double x"
  have y: "?y = of_int ?n * 2 powi ?e" by (simp add: round_double_def)
  have "\<bar>x\<bar> / 2 powi ?e < 2 powi (?e + 53) / 2 powi ?e"
    using abs_less_top [of x] by (intro divide_strict_right_mono) simp_all
  moreover have "\<bar>x / 2 powi ?e\<bar> = \<bar>x\<bar> / 2 powi ?e" by simp
  moreover have "2 powi (?e + 53) / 2 powi ?e = (of_int (2 ^ 53) :: real)"
    using two_powi_diff_int [of ?e "?e + 53"] by simp
  ultimately have "\<bar>x / 2 powi ?e\<bar> < of_int (2 ^ 53)" by (simp only:)
  then have b: "- of_int (2 ^ 53) \<le> x / 2 powi ?e" "x / 2 powi ?e \<le> of_int (2 ^ 53)"
    by linarith+
  from rne_mono [OF b(1)] rne_mono [OF b(2)] have n: "- (2 ^ 53) \<le> ?n" "?n \<le> 2 ^ 53"
    by (simp_all only: rne_of_int rne_minus flip: of_int_minus)
  show ?thesis
  proof (cases "\<bar>?n\<bar> < 2 ^ 53")
    case True
    from y True expo_ge [of x] show ?thesis by (rule round_double_representable)
  next
    case False
    with n have "?n = 2 ^ 53 \<or> ?n = - (2 ^ 53)" by linarith
    then have "?y = of_int (?n div 2 ^ 53) * 2 powi (?e + 53)" "\<bar>?n div 2 ^ 53\<bar> < 2 ^ 53"
      using y by (auto simp: power_int_add)
    moreover have "- 1074 \<le> ?e + 53" using expo_ge [of x] by simp
    ultimately show ?thesis by (rule round_double_representable)
  qed
qed

subsection \<open>Error bounds\<close>

lemma round_double_abs_error:
  assumes "\<bar>x\<bar> < 2 powi k" and "- 1021 \<le> k"
  shows "\<bar>round_double x - x\<bar> \<le> 2 powi (k - 54)"
proof -
  from expo_le [OF assms(1)] assms(2) have "expo x \<le> k - 53" by simp
  then have "(2::real) powi expo x \<le> 2 powi (k - 53)" by (simp add: two_powi_le_iff)
  moreover have "(2::real) powi (k - 53) / 2 = 2 powi (k - 54)"
    using power_int_add [of "2::real" "k - 54" 1] by simp
  ultimately show ?thesis using round_double_error [of x] by linarith
qed

lemma round_double_rel_error:
  assumes "2 powi (- 1022) \<le> x"
  shows "\<bar>round_double x - x\<bar> \<le> x * 2 powi (- 53)"
proof -
  from assms two_powi_pos [of "- 1022"] have pos: "0 < x" by linarith
  then have nz: "x \<noteq> 0" by simp
  let ?k = "\<lfloor>log 2 \<bar>x\<bar>\<rfloor>"
  have ax: "\<bar>x\<bar> = x" using pos by simp
  from floor_log2_bounds(2) [OF nz] assms ax have "(2::real) powi (- 1022) < 2 powi (?k + 1)"
    by linarith
  then have "- 1022 < ?k + 1" by (simp only: two_powi_less_iff)
  then have "- 1022 \<le> ?k" by linarith
  then have "max (?k - 52) (- 1074) = ?k - 52" by linarith
  then have e: "expo x = ?k - 52" using nz by (simp only: expo_def if_False)
  have "(2::real) powi (?k - 52) = 2 powi ?k * 2 powi (- 52)"
    using power_int_add [of "2::real" ?k "- 52"] by simp
  also have "\<dots> \<le> x * 2 powi (- 52)"
    using floor_log2_bounds(1) [OF nz] ax by (intro mult_right_mono) simp_all
  finally have "(2::real) powi expo x / 2 \<le> x * 2 powi (- 52) / 2" using e by simp
  moreover have "(2::real) powi (- 52) / 2 = 2 powi (- 53)"
    using power_int_add [of "2::real" "- 53" 1] by simp
  ultimately show ?thesis using round_double_error [of x] by simp
qed

lemma round_double_abs_bounds:
  assumes "\<bar>x\<bar> < 2 powi k" and "- 1021 \<le> k" and "j = k - 54"
  shows "x - 2 powi j \<le> round_double x" and "round_double x \<le> x + 2 powi j"
  using round_double_abs_error [OF assms(1,2)] assms(3) by (simp_all add: abs_le_iff)

lemma round_double_rel_bounds:
  assumes "2 powi (- 1022) \<le> x"
  shows "x - x * 2 powi (- 53) \<le> round_double x"
    and "round_double x \<le> x + x * 2 powi (- 53)"
  using round_double_rel_error [OF assms] by (simp_all only: abs_le_iff) linarith+

lemma round_double_le_double:
  assumes d: "round_double d = d" and pos: "0 < d" and x: "x < d + 2 powi expo d / 2"
  shows "round_double x \<le> d"
proof (cases "x \<le> d")
  case True
  from round_double_mono [OF True] d show ?thesis by simp
next
  case False
  then have dx: "d < x" by simp
  let ?e = "expo d"
  let ?q = "(2::real) powi ?e"
  let ?n = "rne (d / ?q)"
  have q: "0 < ?q" by simp
  have dn: "d = of_int ?n * ?q" using d by (simp add: round_double_def)
  have "d / ?q < 2 powi (?e + 53) / ?q"
    using abs_less_top [of d] pos by (intro divide_strict_right_mono) simp_all
  moreover have "2 powi (?e + 53) / ?q = (of_int (2 ^ 53) :: real)"
    using two_powi_diff_int [of ?e "?e + 53"] by simp
  moreover have "d / ?q = of_int ?n" using dn q by (simp add: field_simps)
  ultimately have "(of_int ?n :: real) < of_int (2 ^ 53)" by (simp only:)
  then have "?n < 2 ^ 53" by (simp only: of_int_less_iff)
  then have "?n + 1 \<le> 2 ^ 53" by simp
  then have "(of_int (?n + 1) :: real) \<le> of_int (2 ^ 53)" by (simp only: of_int_le_iff)
  then have "(of_int ?n + 1) * ?q \<le> of_int (2 ^ 53) * ?q"
    using q by (intro mult_right_mono) simp_all
  also have "of_int (2 ^ 53) * ?q = 2 powi (?e + 53)"
    by (simp add: power_int_add)
  finally have top: "(of_int ?n + 1) * ?q \<le> 2 powi (?e + 53)" .
  have xq: "x < (of_int ?n + 1 / 2) * ?q"
    using x dn by (simp add: algebra_simps)
  also have "\<dots> \<le> (of_int ?n + 1) * ?q"
    using q by (intro mult_right_mono) simp_all
  finally have "\<bar>x\<bar> < 2 powi (?e + 53)" using top dx pos by simp
  from expo_le [OF this] expo_ge [of d] have "expo x \<le> ?e" by simp
  moreover have "?e \<le> expo x" using dx pos by (intro expo_mono) simp
  ultimately have ex: "expo x = ?e" by simp
  from xq q have "x / ?q < of_int ?n + 1 / 2" by (simp add: field_simps)
  from rne_le [OF this] have "of_int (rne (x / ?q)) * ?q \<le> of_int ?n * ?q"
    using q by (intro mult_right_mono) simp_all
  with ex dn show ?thesis by (simp add: round_double_def)
qed

subsection \<open>Values of the rounding\<close>

lemma round_double_normal:
  assumes "2 powi k \<le> \<bar>x\<bar>" and "\<bar>x\<bar> < 2 powi (k + 1)" and "- 1022 \<le> k"
  shows "round_double x = of_int (rne (x * 2 powi (52 - k))) * 2 powi (k - 52)"
proof -
  from expo_eq [OF assms(1,2)] assms(3) have "expo x = k - 52" by simp
  moreover have "x / 2 powi (k - 52) = x * 2 powi (52 - k)"
    using power_int_minus [of "2::real" "52 - k"] by (simp add: field_simps)
  ultimately show ?thesis by (simp add: round_double_def)
qed

lemma double_below_one:
  assumes "round_double x = x" and "x < 1"
  shows "x \<le> 1 - 2 powi (- 53)"
proof (cases "1 / 2 \<le> x")
  case False
  have "(2::real) powi (- 53) \<le> 2 powi (- 1)" by (simp add: two_powi_le_iff)
  with False show ?thesis by (simp add: power_int_minus)
next
  case True
  have "2 powi (- 1) \<le> \<bar>x\<bar>" "\<bar>x\<bar> < 2 powi (- 1 + 1)"
    using True assms(2) by (simp_all add: power_int_minus)
  from round_double_normal [OF this] assms(1)
  have eq: "x = of_int (rne (x * 2 powi 53)) * 2 powi (- 53)" by simp
  let ?n = "rne (x * 2 powi 53)"
  have p: "(2::real) powi (- 53) * 2 powi 53 = 1"
    using power_int_add [of "2::real" "- 53" 53] by simp
  from eq assms(2) have "of_int ?n * 2 powi (- 53) < (1::real)" by simp
  then have "of_int ?n * 2 powi (- 53) * 2 powi 53 < (1::real) * 2 powi 53"
    by (intro mult_strict_right_mono) simp_all
  then have "of_int ?n < (2::real) powi 53" using p by (simp add: mult.assoc)
  then have "(of_int ?n :: real) < of_int (2 ^ 53)" by (simp add: power_int_def)
  then have "?n < 2 ^ 53" by (simp only: of_int_less_iff)
  then have "?n \<le> 2 ^ 53 - 1" by simp
  then have "(of_int ?n :: real) \<le> of_int (2 ^ 53 - 1)" by (simp only: of_int_le_iff)
  then have "of_int ?n * 2 powi (- 53) \<le> (of_int (2 ^ 53 - 1) :: real) * 2 powi (- 53)"
    by (intro mult_right_mono) simp_all
  also have "(of_int (2 ^ 53 - 1) :: real) * 2 powi (- 53) = 1 - 2 powi (- 53)"
    using p by (simp add: algebra_simps power_int_def)
  finally show ?thesis using eq by simp
qed



text \<open>
  The rounding of a given number \<open>x\<close> is found from the power of two \<open>2 powi k\<close> at or
  below its magnitude and from the integer \<open>n\<close> nearest to \<open>x\<close> counted in units of the
  spacing; a number that is a multiple of that spacing is a double already.
\<close>

lemma round_double_value:
  assumes "2 powi k \<le> \<bar>x\<bar>" and "\<bar>x\<bar> < 2 powi (k + 1)" and "- 1022 \<le> k"
    and "of_int n - 1 / 2 < x * 2 powi (52 - k)" and "x * 2 powi (52 - k) < of_int n + 1 / 2"
  shows "round_double x = of_int n * 2 powi (k - 52)"
  using round_double_normal [OF assms(1-3)] rne_near [OF assms(4,5)] by simp

lemma round_double_value_tie:
  assumes "2 powi k \<le> \<bar>x\<bar>" and "\<bar>x\<bar> < 2 powi (k + 1)" and "- 1022 \<le> k"
    and "x * 2 powi (52 - k) = of_int n + 1 / 2"
  shows "round_double x = of_int (if even n then n else n + 1) * 2 powi (k - 52)"
  using round_double_normal [OF assms(1-3)] rne_tie [OF assms(4)] by simp

lemma double_03: "round_double 0.3 = 5404319552844595 / 2 ^ 54"
  using round_double_value [of "- 2" "0.3" 5404319552844595]
  by (simp add: power_int_minus)

lemma double_06: "round_double 0.6 = 5404319552844595 / 2 ^ 53"
  using round_double_value [of "- 1" "0.6" 5404319552844595]
  by (simp add: power_int_minus)

lemma double_18: "round_double 1.8 = 8106479329266893 / 2 ^ 52"
  using round_double_value [of 0 "1.8" 8106479329266893]
  by (simp add: power_int_minus)

lemma double_24: "round_double 2.4 = 5404319552844595 / 2 ^ 51"
  using round_double_value [of 1 "2.4" 5404319552844595]
  by (simp add: power_int_minus)

lemma double_06_plus_18: "round_double (round_double 0.6 + round_double 1.8) = round_double 2.4"
  unfolding double_06 double_18 double_24
  using round_double_value [of 1 "5404319552844595 / 2 ^ 53 + 8106479329266893 / 2 ^ 52"
      5404319552844595]
  by (simp add: power_int_minus)

lemma double_int: "\<bar>m\<bar> < 2 ^ 53 \<Longrightarrow> round_double (of_int m) = of_int m"
  using round_double_representable [of "of_int m" m 0] by simp

lemma double_small_ints [simp]:
  "round_double 1 = 1" "round_double 2 = 2" "round_double 4 = 4" "round_double 8 = 8"
  "round_double 16 = 16"
  using double_int [of 1] double_int [of 2] double_int [of 4] double_int [of 8]
    double_int [of 16]
  by simp_all

lemma double_below_8: "round_double ((1 - 2 powi (- 53)) * 8) = 8 - 2 powi (- 50)"
  using round_double_representable [of "(1 - 2 powi (- 53)) * 8" "2 ^ 53 - 1" "- 50"]
  by (simp add: power_int_minus)

lemma double_below_4: "round_double (8 - 2 powi (- 50) - 4) = 4 - 2 powi (- 50)"
  using round_double_representable [of "8 - 2 powi (- 50) - 4" "2 ^ 52 - 1" "- 50"]
  by (simp add: power_int_minus)

lemma double_below_PI: "round_double ((1 - 2 powi (- 53)) * Math_PI) = Math_PI - 2 powi (- 51)"
  using round_double_value [of 1 "(1 - 2 powi (- 53)) * Math_PI" 7074237752028439]
  by (simp add: Math_PI_def power_int_minus)

lemma double_below_2PI: "round_double ((Math_PI - 2 powi (- 51)) * 2) = 2 * Math_PI - 2 powi (- 50)"
  using round_double_representable [of "(Math_PI - 2 powi (- 51)) * 2" 7074237752028439 "- 50"]
  by (simp add: Math_PI_def power_int_minus)

lemma double_below_18:
  "round_double ((1 - 2 powi (- 53)) * round_double 1.8) = round_double 1.8 - 2 powi (- 52)"
  unfolding double_18
  using round_double_value [of 0 "(1 - 2 powi (- 53)) * (8106479329266893 / 2 ^ 52)"
      8106479329266892]
  by (simp add: power_int_minus)

lemma double_top_h:
  "round_double (round_double 0.6 + (round_double 1.8 - 2 powi (- 52))) = round_double 2.4"
  unfolding double_06 double_18 double_24
  using round_double_value [of 1
      "5404319552844595 / 2 ^ 53 + (8106479329266893 / 2 ^ 52 - 2 powi (- 52))" 5404319552844595]
  by (simp add: power_int_minus)

subsection \<open>The expressions of the seeds\<close>

lemma x_range:
  assumes "round_double g = g" and "0 \<le> g" and "g < 1"
  shows "- 4 \<le> round_double (round_double (g * 8) - 4)"
    and "round_double (round_double (g * 8) - 4) < 4"
proof -
  from double_below_one [OF assms(1,3)] have g: "g \<le> 1 - 2 powi (- 53)" .
  have "0 \<le> round_double (g * 8)" using assms(2) by (intro round_double_nonneg) simp
  then have "- 4 \<le> round_double (g * 8) - 4" by simp
  from round_double_mono [OF this] show "- 4 \<le> round_double (round_double (g * 8) - 4)"
    using round_double_minus [of 4] by simp
  from g have "g * 8 \<le> (1 - 2 powi (- 53)) * 8" by simp
  from round_double_mono [OF this] have "round_double (g * 8) \<le> 8 - 2 powi (- 50)"
    by (simp only: double_below_8)
  then have "round_double (g * 8) - 4 \<le> 8 - 2 powi (- 50) - 4" by linarith
  from round_double_mono [OF this]
  have "round_double (round_double (g * 8) - 4) \<le> 4 - 2 powi (- 50)"
    by (simp only: double_below_4)
  then show "round_double (round_double (g * 8) - 4) < 4"
    using two_powi_pos [of "- 50"] by linarith
qed

lemma h_range:
  assumes "0 \<le> g" and "g < 1"
  shows "round_double 0.6 \<le> round_double (round_double 0.6 + round_double (g * round_double 1.8))"
    and "round_double (round_double 0.6 + round_double (g * round_double 1.8)) \<le> round_double 2.4"
proof -
  have pos: "0 \<le> round_double 1.8" by (intro round_double_nonneg) simp
  have "0 \<le> round_double (g * round_double 1.8)"
    using assms(1) pos by (intro round_double_nonneg) simp
  then have "round_double 0.6 \<le> round_double 0.6 + round_double (g * round_double 1.8)" by simp
  from round_double_mono [OF this]
  show "round_double 0.6 \<le> round_double (round_double 0.6 + round_double (g * round_double 1.8))"
    by (simp only: round_double_idem)
  have "g * round_double 1.8 \<le> 1 * round_double 1.8"
    using assms(2) pos by (intro mult_right_mono) simp_all
  from round_double_mono [OF this]
  have "round_double 0.6 + round_double (g * round_double 1.8)
          \<le> round_double 0.6 + round_double 1.8"
    by (simp add: round_double_idem)
  from round_double_mono [OF this]
  show "round_double (round_double 0.6 + round_double (g * round_double 1.8)) \<le> round_double 2.4"
    by (simp only: double_06_plus_18)
qed

lemma r_range:
  assumes "round_double g = g" and "0 \<le> g" and "g < 1"
  shows "0 \<le> round_double (round_double (g * Math_PI) * 2)"
    and "round_double (round_double (g * Math_PI) * 2) < 2 * Math_PI"
proof -
  from double_below_one [OF assms(1,3)] have g: "g \<le> 1 - 2 powi (- 53)" .
  have pi: "0 \<le> Math_PI" by (simp add: Math_PI_def)
  have "0 \<le> round_double (g * Math_PI)" using assms(2) pi by (intro round_double_nonneg) simp
  then show "0 \<le> round_double (round_double (g * Math_PI) * 2)"
    by (intro round_double_nonneg) simp
  from g pi have "g * Math_PI \<le> (1 - 2 powi (- 53)) * Math_PI" by (intro mult_right_mono)
  from round_double_mono [OF this]
  have "round_double (g * Math_PI) \<le> Math_PI - 2 powi (- 51)"
    by (simp only: double_below_PI)
  then have "round_double (g * Math_PI) * 2 \<le> (Math_PI - 2 powi (- 51)) * 2"
    by (intro mult_right_mono) simp_all
  from round_double_mono [OF this]
  have "round_double (round_double (g * Math_PI) * 2) \<le> 2 * Math_PI - 2 powi (- 50)"
    by (simp only: double_below_2PI)
  then show "round_double (round_double (g * Math_PI) * 2) < 2 * Math_PI"
    using two_powi_pos [of "- 50"] by linarith
qed

subsection \<open>The interpolation between 0.3 and a height of at least 0.6\<close>

lemma double_03_threshold:
  assumes "round_double 0.3 - 2 powi (- 55) < x"
  shows "round_double 0.3 \<le> round_double x"
proof (cases "round_double 0.3 \<le> x")
  case True
  from round_double_mono [OF True] show ?thesis by (simp only: round_double_idem)
next
  case False
  with assms have x: "5404319552844595 / 2 ^ 54 - 2 powi (- 55) < x" "x < 5404319552844595 / 2 ^ 54"
    by (simp_all only: double_03)
  then have "2 powi (- 2) \<le> \<bar>x\<bar>" "\<bar>x\<bar> < 2 powi (- 2 + 1)"
    by (simp_all add: power_int_minus)
  from round_double_normal [OF this]
  have fl: "round_double x = of_int (rne (x * 2 powi 54)) * 2 powi (- 54)" by simp
  have "of_int 5404319552844595 - 1 / 2 < x * 2 powi 54"
    using x(1) by (simp add: power_int_minus field_simps)
  from rne_ge [OF this]
  have "(of_int 5404319552844595 :: real) \<le> of_int (rne (x * 2 powi 54))"
    by (simp only: of_int_le_iff)
  then have "of_int 5404319552844595 * 2 powi (- 54)
               \<le> of_int (rne (x * 2 powi 54)) * (2::real) powi (- 54)"
    by (intro mult_right_mono) simp_all
  then show ?thesis by (simp add: fl double_03 power_int_minus)
qed

lemma double_tie_one: "round_double (1 - 2 powi (- 54)) = 1"
  using round_double_value_tie [of "- 1" "1 - 2 powi (- 54)" "2 ^ 53 - 1"]
  by (simp add: power_int_minus)

lemma double_pred_one: "round_double (1 - 2 powi (- 53)) = 1 - 2 powi (- 53)"
  using round_double_representable [of "1 - 2 powi (- 53)" "2 ^ 53 - 1" "- 53"]
  by (simp add: power_int_minus)

lemma double_03_pred:
  "round_double ((1 - 2 powi (- 53)) * round_double 0.3) = round_double 0.3 - 2 powi (- 54)"
  unfolding double_03
  using round_double_value [of "- 2" "(1 - 2 powi (- 53)) * (5404319552844595 / 2 ^ 54)"
      5404319552844594]
  by (simp add: power_int_minus)

lemma double_06_tiny:
  "round_double (2 powi (- 54) * round_double 0.6) = 2 powi (- 54) * round_double 0.6"
  unfolding double_06
  using round_double_representable
    [of "2 powi (- 54) * (5404319552844595 / 2 ^ 53)" 5404319552844595 "- 107"]
  by (simp add: power_int_minus)

lemma lerp_lower:
  assumes t: "0 \<le> t" "t \<le> 1" and b: "round_double 0.6 \<le> b"
  shows "round_double 0.3
           \<le> round_double (round_double (round_double (1 - t) * round_double 0.3)
                              + round_double (t * b))"
proof -
  define a where "a = round_double 0.3"
  define s where "s = round_double (1 - t)"
  define A where "A = round_double (s * a)"
  define B where "B = round_double (t * b)"
  have a: "a = 5404319552844595 / 2 ^ 54" by (simp only: a_def double_03)
  have b2: "2 * a \<le> b" using b by (simp only: a double_06) simp
  have bpos: "0 \<le> b" using b2 a by simp
  have B0: "0 \<le> B" unfolding B_def using t(1) bpos by (intro round_double_nonneg) simp
  have s1: "s \<le> 1" unfolding s_def using round_double_mono [of "1 - t" 1] t(1) by simp
  have s0: "0 \<le> s" unfolding s_def using t(2) by (intro round_double_nonneg) simp
  have goal: "a - 2 powi (- 55) < A + B"
  proof -
    consider "t \<le> 2 powi (- 54)" | "2 powi (- 54) < t" "t \<le> 2 powi (- 53)" | "2 powi (- 53) < t"
      by linarith
    then show ?thesis
    proof cases
      case 1
      then have "1 - 2 powi (- 54) \<le> 1 - t" by simp
      from round_double_mono [OF this] have "1 \<le> s" by (simp only: double_tie_one s_def)
      with s1 have "s = 1" by simp
      then have "A = a" by (simp add: A_def a_def round_double_idem)
      with B0 two_powi_pos [of "- 55"] show ?thesis by linarith
    next
      case 2
      then have "1 - 2 powi (- 53) \<le> 1 - t" by simp
      from round_double_mono [OF this] have "1 - 2 powi (- 53) \<le> s"
        by (simp only: double_pred_one s_def)
      then have "(1 - 2 powi (- 53)) * a \<le> s * a"
        using a by (intro mult_right_mono) simp_all
      from round_double_mono [OF this] have A: "a - 2 powi (- 54) \<le> A"
        by (simp only: A_def a_def double_03_pred)
      have "0 \<le> round_double 0.6" by (intro round_double_nonneg) simp
      then have "2 powi (- 54) * round_double 0.6 \<le> t * b"
        using 2(1) b by (intro mult_mono) simp_all
      from round_double_mono [OF this] have "2 powi (- 54) * round_double 0.6 \<le> B"
        by (simp only: B_def double_06_tiny)
      then have "2 powi (- 54) * (5404319552844595 / 2 ^ 53) \<le> B" by (simp only: double_06)
      with A show ?thesis by (simp add: power_int_minus)
    next
      case 3
      have u: "(2::real) powi (- 53) = 1 / 2 ^ 53" "(2::real) powi (- 54) = 1 / 2 ^ 54"
        "(2::real) powi (- 55) = 1 / 2 ^ 55"
        by (simp_all add: power_int_minus)
      have "\<bar>1 - t\<bar> < 2 powi 0" using 3 t two_powi_pos [of "- 53"] by simp
      from round_double_abs_bounds(1) [OF this, of "- 54"] have sl: "1 - t - 2 powi (- 54) \<le> s"
        unfolding s_def by simp
      have "\<bar>s * a\<bar> < 2 powi (- 1)"
      proof -
        have ahalf: "a < 1 / 2" by (simp add: a)
        have p: "(2::real) powi (- 1) = 1 / 2" by (simp add: power_int_minus)
        have "s * a \<le> 1 * a" using s1 a by (intro mult_right_mono) simp_all
        moreover have "0 \<le> s * a" using s0 a by simp
        ultimately show ?thesis unfolding p using ahalf by linarith
      qed
      from round_double_abs_bounds(1) [OF this, of "- 55"] have Al: "s * a - 2 powi (- 55) \<le> A"
        unfolding A_def by simp
      have "(1 - t - 2 powi (- 54)) * a \<le> s * a"
        using sl a by (intro mult_right_mono) simp_all
      with Al have A1: "(1 - t - 2 powi (- 54)) * a - 2 powi (- 55) \<le> A" by linarith
      have tb: "t * (2 * a) \<le> t * b" using b2 t(1) by (intro mult_left_mono)
      have "2 powi (- 53) * (2 * a) \<le> t * (2 * a)"
        using 3 a by (intro mult_right_mono) simp_all
      moreover have "(2::real) powi (- 1022) \<le> 2 powi (- 53) * (2 * a)"
      proof -
        have "(2::real) powi (- 1022) \<le> 2 powi (- 54)" by (simp only: two_powi_le_iff)
        also have "\<dots> \<le> 2 powi (- 53) * (2 * a)" by (simp add: a power_int_minus)
        finally show ?thesis .
      qed
      ultimately have "2 powi (- 1022) \<le> t * b" using tb by linarith
      from round_double_rel_bounds(1) [OF this] have "t * b - t * b * 2 powi (- 53) \<le> B"
        unfolding B_def .
      moreover have "t * (2 * a) * (1 - 2 powi (- 53)) \<le> t * b * (1 - 2 powi (- 53))"
        using tb by (intro mult_right_mono) (simp_all add: power_int_minus)
      ultimately have B1: "t * (2 * a) * (1 - 2 powi (- 53)) \<le> B"
        by (simp add: algebra_simps)
      from A1 B1 3 show ?thesis
        unfolding u a by (simp add: algebra_simps)
    qed
  qed
  from double_03_threshold [of "A + B"] goal show ?thesis
    by (simp only: a_def A_def B_def s_def)
qed


lemma lerp_upper:
  assumes t: "round_double t = t" "0 \<le> t" "t \<le> 1"
    and b: "round_double b = b" "round_double 0.6 \<le> b"
  shows "round_double (round_double (round_double (1 - t) * round_double 0.3)
                         + round_double (t * b)) \<le> b"
proof (cases "t = 1")
  case True
  then show ?thesis by (simp add: b(1))
next
  case False
  with t(3) have "t < 1" by simp
  from double_below_one [OF t(1) this] have t1: "t \<le> 1 - 2 powi (- 53)" .
  define a where "a = round_double 0.3"
  define s where "s = round_double (1 - t)"
  define A where "A = round_double (s * a)"
  define B where "B = round_double (t * b)"
  define q where "q = (2::real) powi expo b"
  have a: "a = 5404319552844595 / 2 ^ 54" by (simp only: a_def double_03)
  have u: "(2::real) powi (- 53) = 1 / 2 ^ 53" "(2::real) powi (- 55) = 1 / 2 ^ 55"
    by (simp_all add: power_int_minus)
  have b2: "2 * a \<le> b" using b(2) by (simp only: a double_06) simp
  have bpos: "0 < b" using b2 a by simp
  have s1: "s \<le> 1" unfolding s_def using round_double_mono [of "1 - t" 1] t(2) by simp
  have s0: "0 \<le> s" unfolding s_def using t(3) by (intro round_double_nonneg) simp
  have "(2::real) powi (- 1022) \<le> 2 powi (- 53)" by (simp only: two_powi_le_iff)
  with t1 have "2 powi (- 1022) \<le> 1 - t" by linarith
  from round_double_rel_bounds(2) [OF this]
  have su: "s \<le> (1 - t) + (1 - t) * 2 powi (- 53)" unfolding s_def .
  have "\<bar>s * a\<bar> < 2 powi (- 1)"
  proof -
    have ahalf: "a < 1 / 2" by (simp add: a)
    have p: "(2::real) powi (- 1) = 1 / 2" by (simp add: power_int_minus)
    have "s * a \<le> 1 * a" using s1 a by (intro mult_right_mono) simp_all
    moreover have "0 \<le> s * a" using s0 a by simp
    ultimately show ?thesis unfolding p using ahalf by linarith
  qed
  from round_double_abs_bounds(2) [OF this, of "- 55"] have Au: "A \<le> s * a + 2 powi (- 55)"
    unfolding A_def by simp
  have "s * a \<le> ((1 - t) + (1 - t) * 2 powi (- 53)) * a"
    using su a by (intro mult_right_mono) simp_all
  with Au have A1: "A \<le> ((1 - t) + (1 - t) * 2 powi (- 53)) * a + 2 powi (- 55)" by linarith
  have "\<bar>t * b\<bar> \<le> \<bar>b\<bar>"
  proof -
    have "t * b \<le> 1 * b" using t(3) bpos by (intro mult_right_mono) simp_all
    moreover have "0 \<le> t * b" using t(2) bpos by simp
    ultimately show ?thesis using bpos by simp
  qed
  from expo_mono [OF this] have "(2::real) powi expo (t * b) \<le> q"
    unfolding q_def by (simp only: two_powi_le_iff)
  with round_double_error [of "t * b"] have B1: "B \<le> t * b + q / 2"
    unfolding B_def by (simp only: abs_le_iff) linarith
  have tb: "(1 - t) * (2 * a) \<le> (1 - t) * b" using b2 t(3) by (intro mult_left_mono) simp_all
  have "A + B < b + q / 2"
  proof -
    have "((1 - t) + (1 - t) * 2 powi (- 53)) * a + 2 powi (- 55) < (1 - t) * (2 * a)"
      using t1 unfolding u a by (simp add: field_simps)
    with tb A1 have "A < (1 - t) * b" by linarith
    moreover have "(1 - t) * b = b - t * b" by (simp add: algebra_simps)
    ultimately show ?thesis using B1 by linarith
  qed
  from round_double_le_double [OF b(1) bpos this [unfolded q_def]] show ?thesis
    by (simp only: a_def A_def B_def s_def)
qed

subsection \<open>Operations on numbers\<close>

lemma to_number_small:
  assumes "\<bar>x\<bar> \<le> 16"
  shows "to_number x = Fin (round_double x)" and "\<bar>round_double x\<bar> \<le> 16"
proof -
  from assms have "- 16 \<le> x" "x \<le> 16" by simp_all
  from round_double_mono [OF this(1)] round_double_mono [OF this(2)]
  have r: "- 16 \<le> round_double x" "round_double x \<le> 16"
    using round_double_minus [of 16] by simp_all
  then show "\<bar>round_double x\<bar> \<le> 16" by simp
  have "(2::real) powi 4 < 2 powi 1024" by (simp only: two_powi_less_iff)
  then have "(16::real) < 2 powi 1024" by simp
  with r show "to_number x = Fin (round_double x)"
    by (simp add: to_number_def Let_def)
qed

lemma clamp_unit:
  assumes "is_number v" and "v \<noteq> NaN"
  shows "\<exists>t. clamp v (Fin 0) (Fin 1) = Fin t \<and> round_double t = t \<and> 0 \<le> t \<and> t \<le> 1"
proof (cases v)
  case (Fin x)
  with assms(1) have x: "round_double x = x" by (simp add: is_double_def)
  have "clamp v (Fin 0) (Fin 1) = Fin (max 0 (min 1 x))" by (simp add: clamp_def Fin)
  moreover have "round_double (max 0 (min 1 x)) = max 0 (min 1 x)"
    using x by (simp add: max_def min_def)
  ultimately show ?thesis by auto
qed (insert assms, simp_all add: clamp_def)

lemma lerp_Fin:
  assumes "0 \<le> t" and "t \<le> 1" and "0 \<le> a" and "a \<le> 1" and "0 \<le> b" and "b \<le> 8"
  shows "lerp (Fin a) (Fin b) (Fin t) =
           Fin (round_double (round_double (round_double (1 - t) * a) + round_double (t * b)))"
proof -
  have "\<bar>1 - t\<bar> \<le> 16" using assms by simp
  note s = to_number_small [OF this]
  have s0: "0 \<le> round_double (1 - t)" using assms by (intro round_double_nonneg) simp
  have s1: "round_double (1 - t) \<le> 1" using round_double_mono [of "1 - t" 1] assms by simp
  have "round_double (1 - t) * a \<le> 1 * 1" using s0 s1 assms by (intro mult_mono) simp_all
  moreover have "0 \<le> round_double (1 - t) * a" using s0 assms by simp
  ultimately have "\<bar>round_double (1 - t) * a\<bar> \<le> 16" by simp
  note A = to_number_small [OF this]
  have A0: "0 \<le> round_double (round_double (1 - t) * a)"
    using s0 assms by (intro round_double_nonneg) simp
  have A1: "round_double (round_double (1 - t) * a) \<le> 1"
    using round_double_mono [of "round_double (1 - t) * a" 1]
      \<open>round_double (1 - t) * a \<le> 1 * 1\<close> by simp
  have "t * b \<le> 1 * 8" using assms by (intro mult_mono) simp_all
  moreover have "0 \<le> t * b" using assms by simp
  ultimately have tb: "\<bar>t * b\<bar> \<le> 16" "t * b \<le> 8" by simp_all
  note B = to_number_small [OF tb(1)]
  have B0: "0 \<le> round_double (t * b)" using assms by (intro round_double_nonneg) simp
  have B1: "round_double (t * b) \<le> 8" using round_double_mono [OF tb(2)] by simp
  have "\<bar>round_double (round_double (1 - t) * a) + round_double (t * b)\<bar> \<le> 16"
    using A0 A1 B0 B1 by simp
  note S = to_number_small [OF this]
  show ?thesis
    by (simp add: lerp_def js_sub_def s(1) A(1) B(1) S(1))
qed

section \<open>Properties of the crop field\<close>

lemma length_seeds_loop: "length (seeds_loop rng rnd n k vals) = length vals + n"
  by (induction n arbitrary: k vals) (simp_all add: Let_def)

lemma seed_x_value:
  assumes "0 \<le> g" and "g < 1"
  shows "js_sub (js_mul (Fin g) (Fin 8)) (Fin 4) = Fin (round_double (round_double (g * 8) - 4))"
proof -
  have "\<bar>g * 8\<bar> \<le> 16" using assms by simp
  note p = to_number_small [OF this]
  have "0 \<le> round_double (g * 8)" using assms by (intro round_double_nonneg) simp
  with p(2) have "\<bar>round_double (g * 8) - 4\<bar> \<le> 16" by simp
  from to_number_small(1) [OF this] p(1) show ?thesis by (simp add: js_sub_def)
qed

lemma double_18_bounds: "0 \<le> round_double 1.8" "round_double 1.8 \<le> 2"
  by (simp_all only: double_18) simp_all

lemma double_06_bounds: "0 \<le> round_double 0.6" "round_double 0.6 \<le> 1"
  by (simp_all only: double_06) simp_all

lemma double_24_bounds: "round_double 2.4 \<le> 4"
  by (simp only: double_24) simp

lemma double_03_bounds: "0 \<le> round_double 0.3" "round_double 0.3 \<le> 1"
  by (simp_all only: double_03) simp_all

lemma seed_h_value:
  assumes "0 \<le> g" and "g < 1"
  shows "js_add (Fin (round_double 0.6)) (js_mul (Fin g) (Fin (round_double 1.8))) =
           Fin (round_double (round_double 0.6 + round_double (g * round_double 1.8)))"
proof -
  have "g * round_double 1.8 \<le> 1 * 2"
    using assms double_18_bounds by (intro mult_mono) simp_all
  moreover have "0 \<le> g * round_double 1.8" using assms double_18_bounds by simp
  ultimately have "\<bar>g * round_double 1.8\<bar> \<le> 16" by simp
  note p = to_number_small [OF this]
  have "0 \<le> round_double (g * round_double 1.8)"
    using assms double_18_bounds by (intro round_double_nonneg) simp
  with p(2) double_06_bounds
  have "\<bar>round_double 0.6 + round_double (g * round_double 1.8)\<bar> \<le> 16 + 1" by linarith
  moreover have "round_double (g * round_double 1.8) \<le> 2"
    using round_double_mono [OF \<open>g * round_double 1.8 \<le> 1 * 2\<close>] by simp
  ultimately have "\<bar>round_double 0.6 + round_double (g * round_double 1.8)\<bar> \<le> 16"
    using double_06_bounds \<open>0 \<le> round_double (g * round_double 1.8)\<close> by linarith
  from to_number_small(1) [OF this] p(1) show ?thesis by simp
qed

lemma Math_PI_bounds: "0 \<le> Math_PI" "Math_PI \<le> 4"
  by (simp_all add: Math_PI_def)

lemma seed_r_value:
  assumes "0 \<le> g" and "g < 1"
  shows "js_mul (js_mul (Fin g) (Fin Math_PI)) (Fin 2) =
           Fin (round_double (round_double (g * Math_PI) * 2))"
proof -
  have le: "g * Math_PI \<le> 1 * 4" using assms Math_PI_bounds by (intro mult_mono) simp_all
  moreover have "0 \<le> g * Math_PI" using assms Math_PI_bounds by simp
  ultimately have "\<bar>g * Math_PI\<bar> \<le> 16" by simp
  note p = to_number_small [OF this]
  have "0 \<le> round_double (g * Math_PI)"
    using assms Math_PI_bounds by (intro round_double_nonneg) simp
  moreover have "round_double (g * Math_PI) \<le> 4" using round_double_mono [OF le] by simp
  ultimately have "\<bar>round_double (g * Math_PI) * 2\<bar> \<le> 16" by simp
  from to_number_small(1) [OF this] p(1) show ?thesis by simp
qed


lemma is_double_small: "round_double x = x \<Longrightarrow> \<bar>x\<bar> \<le> 16 \<Longrightarrow> is_double x"
proof -
  assume x: "round_double x = x" "\<bar>x\<bar> \<le> 16"
  have "(2::real) powi 4 < 2 powi 1024" by (simp only: two_powi_less_iff)
  then have "(16::real) < 2 powi 1024" by simp
  with x show ?thesis by (simp add: is_double_def)
qed

lemma seeds_loop_range:
  assumes gen: "\<forall>j. is_double (g j) \<and> 0 \<le> g j \<and> g j < 1"
    and vals: "\<forall>s \<in> set vals. \<exists>x z h r.
                 seed_x s = Fin x \<and> seed_z s = Fin z \<and> seed_h s = Fin h \<and> seed_r s = Fin r
                 \<and> - 4 \<le> x \<and> x < 4 \<and> - 4 \<le> z \<and> z < 4
                 \<and> round_double 0.6 \<le> h \<and> h \<le> round_double 2.4 \<and> round_double h = h
                 \<and> 0 \<le> r \<and> r < 2 * Math_PI"
  shows "\<forall>s \<in> set (seeds_loop (Some g) rnd n k vals). \<exists>x z h r.
           seed_x s = Fin x \<and> seed_z s = Fin z \<and> seed_h s = Fin h \<and> seed_r s = Fin r
           \<and> - 4 \<le> x \<and> x < 4 \<and> - 4 \<le> z \<and> z < 4
           \<and> round_double 0.6 \<le> h \<and> h \<le> round_double 2.4 \<and> round_double h = h
           \<and> 0 \<le> r \<and> r < 2 * Math_PI"
  using vals
proof (induction n arbitrary: k vals)
  case 0
  then show ?case by simp
next
  case (Suc n)
  let ?new = "\<lparr> seed_x = js_sub (js_mul (Fin (g k)) (Fin 8)) (Fin 4),
                  seed_z = js_sub (js_mul (Fin (g (k + 1))) (Fin 8)) (Fin 4),
                  seed_h = js_add (Fin (round_double 0.6))
                             (js_mul (Fin (g (k + 2))) (Fin (round_double 1.8))),
                  seed_r = js_mul (js_mul (Fin (g (k + 3))) (Fin Math_PI)) (Fin 2) \<rparr>"
  have d: "round_double (g j) = g j" "0 \<le> g j" "g j < 1" for j
    using gen by (simp_all add: is_double_def)
  have "\<exists>x z h r.
          seed_x ?new = Fin x \<and> seed_z ?new = Fin z \<and> seed_h ?new = Fin h \<and> seed_r ?new = Fin r
          \<and> - 4 \<le> x \<and> x < 4 \<and> - 4 \<le> z \<and> z < 4
          \<and> round_double 0.6 \<le> h \<and> h \<le> round_double 2.4 \<and> round_double h = h
          \<and> 0 \<le> r \<and> r < 2 * Math_PI"
    using seed_x_value [OF d(2,3), of k] seed_x_value [OF d(2,3), of "k + 1"]
      seed_h_value [OF d(2,3), of "k + 2"] seed_r_value [OF d(2,3), of "k + 3"]
      x_range [OF d, of k] x_range [OF d, of "k + 1"]
      h_range [OF d(2,3), of "k + 2"] r_range [OF d, of "k + 3"]
    by (simp add: round_double_idem)
  with Suc.prems have "\<forall>s \<in> set (vals @ [?new]). \<exists>x z h r.
          seed_x s = Fin x \<and> seed_z s = Fin z \<and> seed_h s = Fin h \<and> seed_r s = Fin r
          \<and> - 4 \<le> x \<and> x < 4 \<and> - 4 \<le> z \<and> z < 4
          \<and> round_double 0.6 \<le> h \<and> h \<le> round_double 2.4 \<and> round_double h = h
          \<and> 0 \<le> r \<and> r < 2 * Math_PI"
    by simp
  from Suc.IH [OF this, of "k + 4"] show ?case
    by (simp add: next_number_def Let_def)
qed

lemma forEach_seed_shape:
  "mesh_count (forEach_seed env t growth ss i mesh) = mesh_count mesh
   \<and> length (instanceMatrix (forEach_seed env t growth ss i mesh)) = length (instanceMatrix mesh)"
  by (induction ss arbitrary: i mesh) (simp_all add: setMatrixAt_def)

lemma forEach_seed_nth:
  "i + length ss \<le> length (instanceMatrix mesh) \<Longrightarrow> j < i + length ss \<Longrightarrow>
     instanceMatrix (forEach_seed env t growth ss i mesh) ! j =
       (if j < i then instanceMatrix mesh ! j else instance_matrix env t growth (ss ! (j - i)))"
proof (induction ss arbitrary: i mesh)
  case Nil
  then show ?case by simp
next
  case (Cons s ss)
  let ?mesh = "setMatrixAt i (instance_matrix env t growth s) mesh"
  from Cons.prems have len: "Suc i + length ss \<le> length (instanceMatrix ?mesh)"
    and j: "j < Suc i + length ss" and i: "i < length (instanceMatrix mesh)"
    by (simp_all add: setMatrixAt_def)
  from Cons.IH [OF len j] i show ?case
    by (auto simp: setMatrixAt_def nth_list_update less_Suc_eq nth_Cons')
qed

lemma seeds_with_seedrandom:
  "seedrandom env = Some ctor \<Longrightarrow>
     \<exists>sds. seeds env count = Inr sds \<and> length sds = count"
  by (simp add: seeds_def length_seeds_loop)

lemma double_half [simp]: "round_double (1 / 2) = 1 / 2"
  using round_double_representable [of "1 / 2" 1 "- 1"] by (simp add: power_int_minus)

lemma double_three_halves [simp]: "round_double (3 / 2) = 3 / 2"
  using round_double_representable [of "3 / 2" 3 "- 1"] by (simp add: power_int_minus)

lemma half_x: "js_sub (js_mul (Fin (1 / 2)) (Fin 8)) (Fin 4) = Fin 0"
proof -
  have "0 \<le> (1 / 2 :: real)" "(1 / 2 :: real) < 1" by simp_all
  from seed_x_value [OF this] show ?thesis by simp
qed

lemma half_h:
  "js_add (Fin (round_double 0.6)) (js_mul (Fin (1 / 2)) (Fin (round_double 1.8))) = Fin (3 / 2)"
proof -
  have a: "round_double (1 / 2 * round_double 1.8) = 8106479329266893 / 2 ^ 53"
    unfolding double_18
    using round_double_representable
      [of "1 / 2 * (8106479329266893 / 2 ^ 52)" 8106479329266893 "- 53"]
    by (simp add: power_int_minus)
  have b: "round_double (round_double 0.6 + 8106479329266893 / 2 ^ 53) = 3 / 2"
    unfolding double_06
    using round_double_representable
      [of "5404319552844595 / 2 ^ 53 + 8106479329266893 / 2 ^ 53" 3 "- 1"]
    by (simp add: power_int_minus)
  have "0 \<le> (1 / 2 :: real)" "(1 / 2 :: real) < 1" by simp_all
  from seed_h_value [OF this] show ?thesis by (simp only: a b)
qed

lemma half_r: "js_mul (js_mul (Fin (1 / 2)) (Fin Math_PI)) (Fin 2) = Fin Math_PI"
proof -
  have a: "round_double (1 / 2 * Math_PI) = Math_PI / 2"
    using round_double_representable [of "1 / 2 * Math_PI" 884279719003555 "- 49"]
    by (simp add: Math_PI_def power_int_minus)
  have b: "round_double (Math_PI / 2 * 2) = Math_PI"
    using round_double_representable [of "Math_PI / 2 * 2" 884279719003555 "- 48"]
    by (simp add: Math_PI_def power_int_minus)
  have "0 \<le> (1 / 2 :: real)" "(1 / 2 :: real) < 1" by simp_all
  from seed_r_value [OF this] show ?thesis by (simp only: a b)
qed

lemma seeds_loop_half:
  "seeds_loop (Some (\<lambda>j. 1 / 2)) rnd (Suc (Suc 0)) 0 [] =
     [\<lparr> seed_x = Fin 0, seed_z = Fin 0, seed_h = Fin (3 / 2), seed_r = Fin Math_PI \<rparr>,
      \<lparr> seed_x = Fin 0, seed_z = Fin 0, seed_h = Fin (3 / 2), seed_r = Fin Math_PI \<rparr>]"
  by (simp only: seeds_loop.simps Let_def next_number_def option.case half_x half_h half_r
        append_Nil append_Cons)

lemma top_x:
  "js_sub (js_mul (Fin (1 - 2 powi (- 53))) (Fin 8)) (Fin 4) = Fin (4 - 2 powi (- 50))"
proof -
  have "0 \<le> (1 - 2 powi (- 53) :: real)" "(1 - 2 powi (- 53) :: real) < 1"
    by (simp_all add: power_int_minus)
  from seed_x_value [OF this] show ?thesis by (simp only: double_below_8 double_below_4)
qed

lemma top_h:
  "js_add (Fin (round_double 0.6)) (js_mul (Fin (1 - 2 powi (- 53))) (Fin (round_double 1.8)))
     = Fin (round_double 2.4)"
proof -
  have "0 \<le> (1 - 2 powi (- 53) :: real)" "(1 - 2 powi (- 53) :: real) < 1"
    by (simp_all add: power_int_minus)
  from seed_h_value [OF this] show ?thesis by (simp only: double_below_18 double_top_h)
qed

lemma top_r:
  "js_mul (js_mul (Fin (1 - 2 powi (- 53))) (Fin Math_PI)) (Fin 2)
     = Fin (2 * Math_PI - 2 powi (- 50))"
proof -
  have "0 \<le> (1 - 2 powi (- 53) :: real)" "(1 - 2 powi (- 53) :: real) < 1"
    by (simp_all add: power_int_minus)
  from seed_r_value [OF this] show ?thesis by (simp only: double_below_PI double_below_2PI)
qed

lemma seeds_loop_top:
  "seeds_loop (Some (\<lambda>j. 1 - 2 powi (- 53))) rnd (Suc 0) 0 [] =
     [\<lparr> seed_x = Fin (4 - 2 powi (- 50)), seed_z = Fin (4 - 2 powi (- 50)),
        seed_h = Fin (round_double 2.4), seed_r = Fin (2 * Math_PI - 2 powi (- 50)) \<rparr>]"
  by (simp only: seeds_loop.simps Let_def next_number_def option.case top_x top_h top_r
        append_Nil)

text \<open>
  Claim C2. The claim says that the positions are computed both with and without a
  seeded generator, \<^verbatim>\<open>Math.random\<close> being used when \<^verbatim>\<open>Math.seedrandom\<close> is missing.
  With the property present the computation returns \<^verbatim>\<open>count\<close> entries
  (\<open>seeds_with_seedrandom\<close>). With the property undefined the test
  \<^verbatim>\<open>new Math.seedrandom\<close> raises a TypeError before the loop starts: no array is
  produced, \<^verbatim>\<open>Math.random\<close> is never called, and rendering the component fails.
\<close>

theorem seeds_raises_without_seedrandom:
  "seeds (env\<lparr>seedrandom := None\<rparr>) count = Inl TypeError
   \<and> InstancedCrops (env\<lparr>seedrandom := None\<rparr>) count = Inl TypeError"
  by (simp add: seeds_def InstancedCrops_def)

text \<open>
  Claim C8, as amended. With a generator that returns doubles of the unit interval, one
  excluded, every seed is finite with \<^verbatim>\<open>x\<close> and \<^verbatim>\<open>z\<close> from -4 to 4, the upper end
  excluded; \<^verbatim>\<open>h\<close> from \<^verbatim>\<open>0.6\<close> to \<^verbatim>\<open>2.4\<close>, both ends included; and \<^verbatim>\<open>r\<close> from 0 to
  \<^verbatim>\<open>2 * Math.PI\<close>, the upper end excluded; so every instance stands on the ground plane
  of 18 by 18 around the origin. The bounds are the doubles that the program denotes by
  these literals.
\<close>

theorem crop_parameters_in_range:
  assumes "seedrandom env = Some ctor"
    and "\<forall>j. is_double (ctor ''krishi'' j) \<and> 0 \<le> ctor ''krishi'' j \<and> ctor ''krishi'' j < 1"
  shows "\<exists>sds. seeds env count = Inr sds
           \<and> (\<forall>s \<in> set sds. \<exists>x z h r.
                 seed_x s = Fin x \<and> seed_z s = Fin z \<and> seed_h s = Fin h \<and> seed_r s = Fin r
                 \<and> - 4 \<le> x \<and> x < 4 \<and> - 4 \<le> z \<and> z < 4
                 \<and> round_double 0.6 \<le> h \<and> h \<le> round_double 2.4
                 \<and> 0 \<le> r \<and> r < 2 * Math_PI
                 \<and> on_ground_plane (instance_matrix env t growth s))"
proof -
  let ?sds = "seeds_loop (Some (ctor ''krishi'')) (random env) count 0 []"
  have eq: "seeds env count = Inr ?sds" using assms(1) by (simp add: seeds_def)
  have rng: "\<forall>s \<in> set ?sds. \<exists>x z h r.
           seed_x s = Fin x \<and> seed_z s = Fin z \<and> seed_h s = Fin h \<and> seed_r s = Fin r
           \<and> - 4 \<le> x \<and> x < 4 \<and> - 4 \<le> z \<and> z < 4
           \<and> round_double 0.6 \<le> h \<and> h \<le> round_double 2.4 \<and> round_double h = h
           \<and> 0 \<le> r \<and> r < 2 * Math_PI"
    by (rule seeds_loop_range [OF assms(2)]) simp
  have "on_ground_plane (instance_matrix env t growth s)"
    if "seed_x s = Fin x" "seed_z s = Fin z" "- 4 \<le> x" "x < 4" "- 4 \<le> z" "z < 4" for s x z
    using that by (auto simp: on_ground_plane_def instance_matrix_def Let_def
        plane_width_def plane_height_def abs_le_iff)
  with rng have "\<forall>s \<in> set ?sds. \<exists>x z h r.
           seed_x s = Fin x \<and> seed_z s = Fin z \<and> seed_h s = Fin h \<and> seed_r s = Fin r
           \<and> - 4 \<le> x \<and> x < 4 \<and> - 4 \<le> z \<and> z < 4
           \<and> round_double 0.6 \<le> h \<and> h \<le> round_double 2.4
           \<and> 0 \<le> r \<and> r < 2 * Math_PI
           \<and> on_ground_plane (instance_matrix env t growth s)"
    by blast
  with eq show ?thesis by blast
qed

text \<open>
  The claim C8 as stated has \<^verbatim>\<open>h\<close> below \<^verbatim>\<open>2.4\<close>. The largest double below one is a
  value a generator may return, and for it the sum \<^verbatim>\<open>0.6 + rh * 1.8\<close> rounds to the
  double \<^verbatim>\<open>2.4\<close> itself.
\<close>

theorem crop_height_reaches_upper_end:
  "is_double (1 - 2 powi (- 53)) \<and> 0 \<le> (1 - 2 powi (- 53) :: real)
   \<and> (1 - 2 powi (- 53) :: real) < 1
   \<and> seeds \<lparr> seedrandom = Some (\<lambda>sd j. 1 - 2 powi (- 53)), random = (\<lambda>j. 0),
              math_sin = (\<lambda>v. Fin 0) \<rparr> 1 =
       Inr [\<lparr> seed_x = Fin (4 - 2 powi (- 50)), seed_z = Fin (4 - 2 powi (- 50)),
              seed_h = Fin (round_double 2.4), seed_r = Fin (2 * Math_PI - 2 powi (- 50)) \<rparr>]"
proof -
  have "is_double (1 - 2 powi (- 53))"
    using is_double_small [OF double_pred_one] by (simp add: power_int_minus)
  moreover have "0 \<le> (1 - 2 powi (- 53) :: real)" "(1 - 2 powi (- 53) :: real) < 1"
    by (simp_all add: power_int_minus)
  moreover have "seeds \<lparr> seedrandom = Some (\<lambda>sd j. 1 - 2 powi (- 53)), random = (\<lambda>j. 0),
              math_sin = (\<lambda>v. Fin 0) \<rparr> 1 =
       Inr [\<lparr> seed_x = Fin (4 - 2 powi (- 50)), seed_z = Fin (4 - 2 powi (- 50)),
              seed_h = Fin (round_double 2.4), seed_r = Fin (2 * Math_PI - 2 powi (- 50)) \<rparr>]"
    using seeds_loop_top [of "\<lambda>j. 0"] by (simp add: seeds_def del: seeds_loop.simps)
  ultimately show ?thesis by blast
qed

theorem crop_parameters_in_range_witness:
  "seeds \<lparr> seedrandom = Some (\<lambda>sd j. 1 / 2), random = (\<lambda>j. 0), math_sin = (\<lambda>v. Fin 0) \<rparr> 2 =
     Inr [\<lparr> seed_x = Fin 0, seed_z = Fin 0, seed_h = Fin (3 / 2), seed_r = Fin Math_PI \<rparr>,
          \<lparr> seed_x = Fin 0, seed_z = Fin 0, seed_h = Fin (3 / 2), seed_r = Fin Math_PI \<rparr>]
   \<and> on_ground_plane
        (instance_matrix
           \<lparr> seedrandom = Some (\<lambda>sd j. 1 / 2), random = (\<lambda>j. 0), math_sin = (\<lambda>v. Fin 0) \<rparr>
           (Fin 0) (Fin 1)
           \<lparr> seed_x = Fin 0, seed_z = Fin 0, seed_h = Fin (3 / 2), seed_r = Fin Math_PI \<rparr>)"
proof -
  let ?env = "\<lparr> seedrandom = Some (\<lambda>sd j. 1 / 2), random = (\<lambda>j. 0), math_sin = (\<lambda>v. Fin 0) \<rparr>"
  have h1: "seedrandom ?env = Some (\<lambda>sd j. 1 / 2)" by simp
  have "is_double (1 / 2)" by (rule is_double_small) simp_all
  then have h2: "\<forall>j. is_double ((\<lambda>sd j. 1 / 2 :: real) ''krishi'' j)
      \<and> 0 \<le> (\<lambda>sd j. 1 / 2 :: real) ''krishi'' j \<and> (\<lambda>sd j. 1 / 2 :: real) ''krishi'' j < 1"
    by simp
  have ev: "seeds ?env 2 =
     Inr [\<lparr> seed_x = Fin 0, seed_z = Fin 0, seed_h = Fin (3 / 2), seed_r = Fin Math_PI \<rparr>,
          \<lparr> seed_x = Fin 0, seed_z = Fin 0, seed_h = Fin (3 / 2), seed_r = Fin Math_PI \<rparr>]"
    using seeds_loop_half [of "\<lambda>j. 0"]
    by (simp add: seeds_def numeral_2_eq_2 del: seeds_loop.simps)
  from crop_parameters_in_range [OF h1 h2, of 2 "Fin 0" "Fin 1"] ev
  have "on_ground_plane (instance_matrix ?env (Fin 0) (Fin 1)
          \<lparr> seed_x = Fin 0, seed_z = Fin 0, seed_h = Fin (3 / 2), seed_r = Fin Math_PI \<rparr>)"
    by auto
  with ev show ?thesis by simp
qed

text \<open>
  Claim C3, as amended. Where the seeds are computed, with a generator that returns
  doubles of the unit interval, one excluded, and for every count and every prediction
  score that is a number other than \<^verbatim>\<open>NaN\<close>, inside or outside the unit interval or
  infinite: the mesh has exactly \<^verbatim>\<open>count\<close> instances and as many seeds, and after a
  frame the height of every instance is the interpolation \<^verbatim>\<open>lerp\<close> between \<^verbatim>\<open>0.3\<close> and
  the \<^verbatim>\<open>h\<close> of its seed by the score clamped to the unit interval, a finite number
  between \<^verbatim>\<open>0.3\<close> and that \<^verbatim>\<open>h\<close>.
\<close>

theorem instanced_crops_count_and_height:
  assumes "seedrandom env = Some ctor"
    and "\<forall>j. is_double (ctor ''krishi'' j) \<and> 0 \<le> ctor ''krishi'' j \<and> ctor ''krishi'' j < 1"
    and "is_number predictionScore" and "predictionScore \<noteq> NaN"
  shows "\<exists>sds mesh. InstancedCrops env count = Inr (sds, mesh)
           \<and> length sds = count
           \<and> mesh_count (InstancedCrops_frame env t predictionScore sds mesh) = count
           \<and> length (instanceMatrix (InstancedCrops_frame env t predictionScore sds mesh)) = count
           \<and> (\<forall>i<count. \<exists>hmax height.
                 seed_h (sds ! i) = Fin hmax
                 \<and> instance_height
                      (instanceMatrix (InstancedCrops_frame env t predictionScore sds mesh) ! i)
                     = lerp (Fin (round_double 0.3)) (seed_h (sds ! i))
                         (clamp predictionScore (Fin 0) (Fin 1))
                 \<and> instance_height
                      (instanceMatrix (InstancedCrops_frame env t predictionScore sds mesh) ! i)
                     = Fin height
                 \<and> round_double 0.3 \<le> height \<and> height \<le> hmax)"
proof -
  let ?sds = "seeds_loop (Some (ctor ''krishi'')) (random env) count 0 []"
  let ?mesh = "InstancedMesh count"
  let ?g = "clamp predictionScore (Fin 0) (Fin 1)"
  let ?after = "InstancedCrops_frame env t predictionScore ?sds ?mesh"
  have eq: "InstancedCrops env count = Inr (?sds, ?mesh)"
    using assms(1) by (simp add: InstancedCrops_def seeds_def)
  have len: "length ?sds = count" by (simp add: length_seeds_loop)
  have mlen: "length (instanceMatrix ?mesh) = count" "mesh_count ?mesh = count"
    by (simp_all add: InstancedMesh_def)
  have after: "?after = forEach_seed env t ?g ?sds 0 ?mesh"
    by (simp add: InstancedCrops_frame_def)
  have shape: "mesh_count ?after = count" "length (instanceMatrix ?after) = count"
    using forEach_seed_shape [of env t ?g ?sds 0 ?mesh] mlen by (simp_all add: after)
  have rng: "\<forall>s \<in> set ?sds. \<exists>x z h r.
           seed_x s = Fin x \<and> seed_z s = Fin z \<and> seed_h s = Fin h \<and> seed_r s = Fin r
           \<and> - 4 \<le> x \<and> x < 4 \<and> - 4 \<le> z \<and> z < 4
           \<and> round_double 0.6 \<le> h \<and> h \<le> round_double 2.4 \<and> round_double h = h
           \<and> 0 \<le> r \<and> r < 2 * Math_PI"
    by (rule seeds_loop_range [OF assms(2)]) simp
  from clamp_unit [OF assms(3,4)] obtain g where
    g: "?g = Fin g" "round_double g = g" "0 \<le> g" "g \<le> 1"
    by blast
  have each: "\<exists>hmax height.
        seed_h (?sds ! i) = Fin hmax
        \<and> instance_height (instanceMatrix ?after ! i) = lerp (Fin (round_double 0.3)) (seed_h (?sds ! i)) ?g
        \<and> instance_height (instanceMatrix ?after ! i) = Fin height
        \<and> round_double 0.3 \<le> height \<and> height \<le> hmax"
    if i: "i < count" for i
  proof -
    have "instanceMatrix ?after ! i = instance_matrix env t ?g (?sds ! i)"
      using forEach_seed_nth [of 0 ?sds ?mesh i env t ?g] i len mlen by (simp add: after)
    then have h: "instance_height (instanceMatrix ?after ! i)
                    = lerp (Fin (round_double 0.3)) (seed_h (?sds ! i)) ?g"
      by (simp add: instance_height_def instance_matrix_def Let_def)
    have "?sds ! i \<in> set ?sds" using i len by simp
    with rng obtain hmax where hmax: "seed_h (?sds ! i) = Fin hmax"
      "round_double 0.6 \<le> hmax" "hmax \<le> round_double 2.4" "round_double hmax = hmax"
      by blast
    have b: "0 \<le> hmax" "hmax \<le> 8"
      using hmax(2,3) double_06_bounds(1) double_24_bounds by linarith+
    let ?v = "round_double (round_double (round_double (1 - g) * round_double 0.3)
                + round_double (g * hmax))"
    from lerp_Fin [OF g(3,4) double_03_bounds b]
    have l: "lerp (Fin (round_double 0.3)) (Fin hmax) (Fin g) = Fin ?v" .
    have "round_double 0.3 \<le> ?v" using g(3,4) hmax(2) by (rule lerp_lower)
    moreover have "?v \<le> hmax" using g(2,3,4) hmax(4,2) by (rule lerp_upper)
    ultimately show ?thesis using h hmax(1) l g(1) by simp
  qed
  from eq len shape each show ?thesis by blast
qed

text \<open>
  The claim C3 as stated holds for every count and every prediction score. With
  \<^verbatim>\<open>Math.seedrandom\<close> undefined no mesh is rendered at all, whatever the count and the
  score. With the seeds computed and the score \<^verbatim>\<open>NaN\<close>, clamping and interpolation give
  \<^verbatim>\<open>NaN\<close>, which is neither the interpolation by a number of the unit interval nor
  between \<^verbatim>\<open>0.3\<close> and the height \<^verbatim>\<open>1.5\<close> of the seed.
\<close>

theorem instanced_crops_fail_or_give_nan:
  "InstancedCrops \<lparr> seedrandom = None, random = (\<lambda>j. 0), math_sin = (\<lambda>v. Fin 0) \<rparr> 500
     = Inl TypeError
   \<and> InstancedCrops
       \<lparr> seedrandom = Some (\<lambda>sd j. 1 / 2), random = (\<lambda>j. 0), math_sin = (\<lambda>v. Fin 0) \<rparr> 1
     = Inr ([\<lparr> seed_x = Fin 0, seed_z = Fin 0, seed_h = Fin (3 / 2), seed_r = Fin Math_PI \<rparr>],
            InstancedMesh 1)
   \<and> instance_height (instanceMatrix (InstancedCrops_frame
        \<lparr> seedrandom = Some (\<lambda>sd j. 1 / 2), random = (\<lambda>j. 0), math_sin = (\<lambda>v. Fin 0) \<rparr>
        (Fin 0) NaN
        [\<lparr> seed_x = Fin 0, seed_z = Fin 0, seed_h = Fin (3 / 2), seed_r = Fin Math_PI \<rparr>]
        (InstancedMesh 1)) ! 0) = NaN"
proof -
  have one: "seeds_loop (Some (\<lambda>j. 1 / 2)) (\<lambda>j. 0) (Suc 0) 0 [] =
     [\<lparr> seed_x = Fin 0, seed_z = Fin 0, seed_h = Fin (3 / 2), seed_r = Fin Math_PI \<rparr>]"
    by (simp only: seeds_loop.simps Let_def next_number_def option.case half_x half_h half_r
        append_Nil)
  have "InstancedCrops \<lparr> seedrandom = None, random = (\<lambda>j. 0), math_sin = (\<lambda>v. Fin 0) \<rparr> 500
     = Inl TypeError"
    by (simp add: InstancedCrops_def seeds_def)
  moreover have "InstancedCrops
       \<lparr> seedrandom = Some (\<lambda>sd j. 1 / 2), random = (\<lambda>j. 0), math_sin = (\<lambda>v. Fin 0) \<rparr> 1
     = Inr ([\<lparr> seed_x = Fin 0, seed_z = Fin 0, seed_h = Fin (3 / 2), seed_r = Fin Math_PI \<rparr>],
            InstancedMesh 1)"
    using one by (simp add: InstancedCrops_def seeds_def del: seeds_loop.simps)
  moreover have "instance_height (instanceMatrix (InstancedCrops_frame
        \<lparr> seedrandom = Some (\<lambda>sd j. 1 / 2), random = (\<lambda>j. 0), math_sin = (\<lambda>v. Fin 0) \<rparr>
        (Fin 0) NaN
        [\<lparr> seed_x = Fin 0, seed_z = Fin 0, seed_h = Fin (3 / 2), seed_r = Fin Math_PI \<rparr>]
        (InstancedMesh 1)) ! 0) = NaN"
    by (simp add: InstancedCrops_frame_def clamp_def InstancedMesh_def setMatrixAt_def
        instance_matrix_def instance_height_def lerp_def js_sub_def Let_def)
  ultimately show ?thesis by blast
qed

theorem instanced_crops_count_and_height_witness:
  "InstancedCrops
     \<lparr> seedrandom = Some (\<lambda>sd j. 1 / 2), random = (\<lambda>j. 0), math_sin = (\<lambda>v. Fin 0) \<rparr> 2 =
     Inr ([\<lparr> seed_x = Fin 0, seed_z = Fin 0, seed_h = Fin (3 / 2), seed_r = Fin Math_PI \<rparr>,
           \<lparr> seed_x = Fin 0, seed_z = Fin 0, seed_h = Fin (3 / 2), seed_r = Fin Math_PI \<rparr>],
          InstancedMesh 2)
   \<and> mesh_count (InstancedCrops_frame
        \<lparr> seedrandom = Some (\<lambda>sd j. 1 / 2), random = (\<lambda>j. 0), math_sin = (\<lambda>v. Fin 0) \<rparr>
        (Fin 0) (Fin 7)
        [\<lparr> seed_x = Fin 0, seed_z = Fin 0, seed_h = Fin (3 / 2), seed_r = Fin Math_PI \<rparr>,
         \<lparr> seed_x = Fin 0, seed_z = Fin 0, seed_h = Fin (3 / 2), seed_r = Fin Math_PI \<rparr>]
        (InstancedMesh 2)) = 2
   \<and> instance_height (instanceMatrix (InstancedCrops_frame
        \<lparr> seedrandom = Some (\<lambda>sd j. 1 / 2), random = (\<lambda>j. 0), math_sin = (\<lambda>v. Fin 0) \<rparr>
        (Fin 0) (Fin 7)
        [\<lparr> seed_x = Fin 0, seed_z = Fin 0, seed_h = Fin (3 / 2), seed_r = Fin Math_PI \<rparr>,
         \<lparr> seed_x = Fin 0, seed_z = Fin 0, seed_h = Fin (3 / 2), seed_r = Fin Math_PI \<rparr>]
        (InstancedMesh 2)) ! 1) = Fin (3 / 2)"
proof -
  let ?env = "\<lparr> seedrandom = Some (\<lambda>sd j. 1 / 2), random = (\<lambda>j. 0), math_sin = (\<lambda>v. Fin 0) \<rparr>"
  let ?s = "\<lparr> seed_x = Fin 0, seed_z = Fin 0, seed_h = Fin (3 / 2), seed_r = Fin Math_PI \<rparr>"
  have h1: "seedrandom ?env = Some (\<lambda>sd j. 1 / 2)" by simp
  have "is_double (1 / 2)" by (rule is_double_small) simp_all
  then have h2: "\<forall>j. is_double ((\<lambda>sd j. 1 / 2 :: real) ''krishi'' j)
      \<and> 0 \<le> (\<lambda>sd j. 1 / 2 :: real) ''krishi'' j \<and> (\<lambda>sd j. 1 / 2 :: real) ''krishi'' j < 1"
    by simp
  have "round_double 7 = 7" using double_int [of 7] by simp
  then have h3: "is_number (Fin 7)" using is_double_small [of 7] by simp
  have h4: "Fin 7 \<noteq> NaN" by simp
  have ev: "InstancedCrops ?env 2 = Inr ([?s, ?s], InstancedMesh 2)"
    using seeds_loop_half [of "\<lambda>j. 0"]
    by (simp add: InstancedCrops_def seeds_def numeral_2_eq_2 del: seeds_loop.simps)
  have cl: "clamp (Fin 7) (Fin 0) (Fin 1) = Fin 1" by (simp add: clamp_def)
  have "lerp (Fin (round_double 0.3)) (Fin (3 / 2)) (Fin 1) = Fin (3 / 2)"
    using lerp_Fin [of 1 "round_double 0.3" "3 / 2"] double_03_bounds by simp
  note l = this
  from instanced_crops_count_and_height [OF h1 h2 h3 h4, of 2 "Fin 0"]
  obtain sds mesh where r: "InstancedCrops ?env 2 = Inr (sds, mesh)"
    "mesh_count (InstancedCrops_frame ?env (Fin 0) (Fin 7) sds mesh) = 2"
    "\<forall>i<2. \<exists>hmax height.
        seed_h (sds ! i) = Fin hmax
        \<and> instance_height (instanceMatrix (InstancedCrops_frame ?env (Fin 0) (Fin 7) sds mesh) ! i)
            = lerp (Fin (round_double 0.3)) (seed_h (sds ! i)) (clamp (Fin 7) (Fin 0) (Fin 1))
        \<and> instance_height (instanceMatrix (InstancedCrops_frame ?env (Fin 0) (Fin 7) sds mesh) ! i)
            = Fin height
        \<and> round_double 0.3 \<le> height \<and> height \<le> hmax"
    by blast
  from r(1) ev have sm: "sds = [?s, ?s]" "mesh = InstancedMesh 2" by simp_all
  from r(3) [rule_format, of 1]
  have "instance_height (instanceMatrix (InstancedCrops_frame ?env (Fin 0) (Fin 7) sds mesh) ! 1)
          = lerp (Fin (round_double 0.3)) (seed_h (sds ! 1)) (clamp (Fin 7) (Fin 0) (Fin 1))"
    by auto
  with sm cl l
  have "instance_height
          (instanceMatrix (InstancedCrops_frame ?env (Fin 0) (Fin 7) [?s, ?s] (InstancedMesh 2)) ! 1)
          = Fin (3 / 2)"
    by simp
  with ev r(2) sm show ?thesis by simp
qed

text \<open>
  Claim C9. At every elapsed time \<open>t\<close> the per-frame callback of the field sets the
  rotation of the group about the vertical axis to \<open>sin (t * 0.3) * 0.06\<close>, whose absolute
  value is at most 0.06; with an empty reference it sets nothing.
\<close>

theorem farm_field_rotation_bounded:
  "FarmField_frame t None = None
   \<and> (\<exists>g'. FarmField_frame t (Some g) = Some g'
        \<and> rotation_y g' = sin (t * 0.3) * 0.06 \<and> \<bar>rotation_y g'\<bar> \<le> 0.06)"
proof -
  have "\<bar>sin (t * 0.3) * 0.06\<bar> \<le> 1 * 0.06"
    unfolding abs_mult by (intro mult_mono) simp_all
  then show ?thesis by (simp add: FarmField_frame_def rotation_y_def)
qed

section \<open>Properties of the setup scripts\<close>

lemma errorlevel_of_zero: "errorlevel_of r = 0 \<longleftrightarrow> r = Exited 0"
  by (cases r) simp_all

text \<open>
  The batch file ends with code 1 as soon as one of \<^verbatim>\<open>python --version\<close>,
  \<^verbatim>\<open>node --version\<close>, \<^verbatim>\<open>npm install\<close> and the two \<^verbatim>\<open>pip install\<close> commands fails,
  without starting a later command, and with code 0 when all five succeed.
\<close>

lemma setup_bat_exit_code:
  "bat_exit_code (run_setup_bat host e0) =
     (if host 6 = Exited 0 \<and> host 14 = Exited 0 \<and> host 24 = Exited 0
         \<and> host 36 = Exited 0 \<and> host 48 = Exited 0
      then 0 else 1)"
  by (simp add: run_setup_bat_def setup_bat_def bat_exit_code_def errorlevel_of_zero)

lemma setup_bat_started:
  "bat_started (run_setup_bat host e0) =
     (if host 6 \<noteq> Exited 0 then [6]
      else if host 14 \<noteq> Exited 0 then [6, 14]
      else if host 24 \<noteq> Exited 0 then [6, 14, 23, 24]
      else if host 36 \<noteq> Exited 0 then [6, 14, 23, 24, 33, 34, 35, 36]
      else [6, 14, 23, 24, 33, 34, 35, 36, 45, 46, 47, 48])"
  by (simp add: run_setup_bat_def setup_bat_def errorlevel_of_zero)

text \<open>
  The PowerShell script ends with code 1 right after \<^verbatim>\<open>python --version\<close> when the
  command cannot be found. When every command can be started, the exit codes of the two
  version checks play no part: only the three install commands decide.
\<close>

lemma setup_ps1_python_not_found:
  assumes "host 6 = NotFound"
  shows "ps_exit_code (run_setup_ps1 host l0) = 1"
    and "ps_started (run_setup_ps1 host l0) = [6]"
  using assms
  by (simp_all add: run_setup_ps1_def setup_ps1_def ps_exit_code_def ps_stopped_def)

lemma setup_ps1_all_found:
  assumes "host 6 = Exited c6" and "host 17 = Exited c17" and "host 29 = Exited c29"
    and "host 39 = Exited c39" and "host 41 = Exited c41"
    and "host 51 = Exited c51" and "host 53 = Exited c53"
  shows "ps_exit_code (run_setup_ps1 host l0) =
           (if c29 = 0 \<and> c41 = 0 \<and> c53 = 0 then 0 else 1)"
  using assms
  by (simp add: run_setup_ps1_def setup_ps1_def ps_exit_code_def ps_stopped_def)

text \<open>
  Claim C1. The claim says that either script ends with code 1 right after a
  prerequisite check or an install command that reports failure. On a machine where
  \<^verbatim>\<open>python --version\<close> can be started and ends with the code 9009, as the placeholder
  program that Windows installs under the name \<^verbatim>\<open>python\<close> does, and every other
  command succeeds, the batch file stops after that command with code 1. The PowerShell
  script starts every later command and ends with code 0: its \<^verbatim>\<open>try\<close> block sees
  only commands that cannot be found, not exit codes.
\<close>

theorem setup_ps1_goes_on_after_failed_python_check:
  "ps_exit_code (run_setup_ps1 (\<lambda>l. if l = 6 then Exited 9009 else Exited 0) None) = 0
   \<and> ps_started (run_setup_ps1 (\<lambda>l. if l = 6 then Exited 9009 else Exited 0) None)
       = [6, 17, 28, 29, 38, 39, 40, 41, 50, 51, 52, 53]
   \<and> bat_exit_code (run_setup_bat (\<lambda>l. if l = 6 then Exited 9009 else Exited 0) 0) = 1
   \<and> bat_started (run_setup_bat (\<lambda>l. if l = 6 then Exited 9009 else Exited 0) 0) = [6]"
  by (simp add: run_setup_ps1_def setup_ps1_def ps_exit_code_def ps_stopped_def
        run_setup_bat_def setup_bat_def bat_exit_code_def)

end
